theory Spec2Isabelle
  imports Main "HOL-Library.Sublist" "HOL-Library.Monad_Syntax"
begin

section \<open>Strings\<close>

text \<open>
  A Python \<open>str\<close> is a sequence of Unicode code points, and \<open>len\<close>, indexing, slicing
  and \<open>replace\<close> all count code points. A string is therefore a list of code points,
  each a natural number. ASCII literals are written through \<open>str\<close>.
\<close>

type_synonym codepoint = nat
type_synonym pystr = "codepoint list"

definition str :: "string \<Rightarrow> pystr" where
  "str s = map of_char s"

text \<open>
  \<open>text.replace(old, new)\<close>: one scan from the left; at each position where \<open>old\<close>
  starts, \<open>new\<close> is emitted and the scan resumes behind the occurrence, so occurrences
  never overlap and the replacement is never scanned again. For an empty \<open>old\<close>, Python
  puts \<open>new\<close> before every character and at the end.
\<close>

function replace :: "'a list \<Rightarrow> 'a list \<Rightarrow> 'a list \<Rightarrow> 'a list" where
  "replace old new [] = (if old = [] then new else [])"
| "replace old new (c # cs) =
     (if old = [] then new @ c # replace old new cs
      else if prefix old (c # cs) then new @ replace old new (drop (length old) (c # cs))
      else c # replace old new cs)"
  by pat_completeness auto
termination
  by (relation "measure (\<lambda>(old, new, text). length text)") (auto simp: neq_Nil_conv)

text \<open>
  \<open>str.isspace\<close> for one code point (CPython's \<open>Py_UNICODE_ISSPACE\<close>), which is what
  \<open>strip()\<close> without an argument removes from both ends.
\<close>

definition isspace :: "codepoint \<Rightarrow> bool" where
  "isspace c \<longleftrightarrow>
     (0x09 \<le> c \<and> c \<le> 0x0D) \<or> (0x1C \<le> c \<and> c \<le> 0x20) \<or> c = 0x85 \<or> c = 0xA0 \<or>
     c = 0x1680 \<or> (0x2000 \<le> c \<and> c \<le> 0x200A) \<or> c = 0x2028 \<or> c = 0x2029 \<or>
     c = 0x202F \<or> c = 0x205F \<or> c = 0x3000"

definition strip_by :: "(codepoint \<Rightarrow> bool) \<Rightarrow> pystr \<Rightarrow> pystr" where
  "strip_by P s = rev (dropWhile P (rev (dropWhile P s)))"

definition strip :: "pystr \<Rightarrow> pystr" where
  "strip s = strip_by isspace s"

definition strip_chars :: "pystr \<Rightarrow> pystr \<Rightarrow> pystr" where
  "strip_chars chars s = strip_by (\<lambda>c. c \<in> set chars) s"

section \<open>The encoding normalizer\<close>

text \<open>
  \<open>fix_encoding\<close> walks the dictionary \<open>encoding_fixes\<close> in insertion order and applies
  one \<open>replace\<close> per entry to the text produced by the entries before it. The table is
  the source's, entry by entry, as code points.
\<close>

definition encoding_fixes :: "(pystr \<times> pystr) list" where
  "encoding_fixes =
    [([0xC3, 0xA1], [0xE1]),
     ([0xC3, 0xA9], [0xE9]),
     ([0xC3, 0xAD], [0xED]),
     ([0xC3, 0xB3], [0xF3]),
     ([0xC3, 0xBA], [0xFA]),
     ([0xC3, 0xB1], [0xF1]),
     ([0xC3], [0xED]),
     ([0xC2, 0xA1], [0xA1]),
     ([0xC2, 0xBF], [0xBF]),
     ([0xC3, 0x81], [0xC1]),
     ([0xC3, 0x89], [0xC9]),
     ([0xC3, 0x8D], [0xCD]),
     ([0xC3, 0x93], [0xD3]),
     ([0xC3, 0x9A], [0xDA]),
     ([0xC3, 0x91], [0xD1])]"

definition fix_encoding :: "pystr \<Rightarrow> pystr" where
  "fix_encoding text =
     foldl (\<lambda>t (wrong, correct). replace wrong correct t) text encoding_fixes"

section \<open>The dialogue parser\<close>

text \<open>
  \<open>match_bracketed t\<close> is the regular expression \<open>\[[^\]]+\]\<close> tried at the start of
  \<open>t\<close>: an opening bracket, at least one character that is not a closing bracket, as
  many as there are, and then a closing bracket. It yields the matched text and the rest.
\<close>

fun match_bracketed :: "pystr \<Rightarrow> (pystr \<times> pystr) option" where
  "match_bracketed (a # b # cs) =
     (if a = 0x5B \<and> b \<noteq> 0x5D
      then (case dropWhile (\<lambda>c. c \<noteq> 0x5D) cs of
              [] \<Rightarrow> None
            | _ # rest \<Rightarrow> Some (a # b # takeWhile (\<lambda>c. c \<noteq> 0x5D) cs @ [0x5D], rest))
      else None)"
| "match_bracketed _ = None"

text \<open>
  \<open>re.split\<close> with the pattern in a capturing group: the text between the matches,
  alternating with the matches themselves, found from the left without overlap. The
  result starts and ends with a piece of text, which may be empty.
\<close>

function re_split :: "pystr \<Rightarrow> pystr list" where
  "re_split [] = [[]]"
| "re_split (c # cs) =
     (case match_bracketed (c # cs) of
        Some (m, rest) \<Rightarrow> [] # m # re_split rest
      | None \<Rightarrow> (case re_split cs of p # ps \<Rightarrow> (c # p) # ps | [] \<Rightarrow> [[c]]))"
  by pat_completeness auto
termination
proof (relation "measure length")
  fix c :: codepoint and cs x2 m rest
  assume "match_bracketed (c # cs) = Some x2" "(m, rest) = x2"
  then have m: "match_bracketed (c # cs) = Some (m, rest)" by simp
  then obtain b bs where cs: "cs = b # bs" by (cases cs) auto
  with m obtain x where "dropWhile (\<lambda>c. c \<noteq> 0x5D) bs = x # rest"
    by (auto split: if_splits list.splits)
  then have "length rest < length (dropWhile (\<lambda>c. c \<noteq> 0x5D) bs)" by simp
  also have "\<dots> \<le> length bs" by (rule length_dropWhile_le)
  finally show "(rest, c # cs) \<in> measure length" by (simp add: cs)
qed simp_all

text \<open>
  \<open>re.match(r'\[.+\]', part)\<close>: at the start of \<open>part\<close>, an opening bracket, at least
  one character other than a line feed, and a closing bracket, all before the first
  line feed.
\<close>

definition is_character_name :: "pystr \<Rightarrow> bool" where
  "is_character_name part =
     (case part of
        [] \<Rightarrow> False
      | c # rest \<Rightarrow> c = 0x5B \<and> 0x5D \<in> set (tl (takeWhile (\<lambda>x. x \<noteq> 0x0A) rest)))"

text \<open>
  The loop over the parts, with its three variables \<open>result\<close>, \<open>current_character\<close>
  (\<open>None\<close> until the first character name) and \<open>current_dialogue\<close>; after the last part
  the pending entry is appended.
\<close>

fun parse_loop ::
  "pystr list \<Rightarrow> (pystr \<times> pystr) list \<Rightarrow> pystr option \<Rightarrow> pystr \<Rightarrow> (pystr \<times> pystr) list"
where
  "parse_loop [] result current_character current_dialogue =
     (case current_character of
        None \<Rightarrow> result
      | Some ch \<Rightarrow> result @ [(ch, strip current_dialogue)])"
| "parse_loop (part # parts) result current_character current_dialogue =
     (if is_character_name part
      then parse_loop parts
             (case current_character of
                None \<Rightarrow> result
              | Some ch \<Rightarrow> result @ [(ch, strip current_dialogue)])
             (Some part) []
      else parse_loop parts result current_character (current_dialogue @ part))"

definition split_parts :: "pystr \<Rightarrow> pystr list" where
  "split_parts text =
     (let parts = re_split text
      in if parts \<noteq> [] \<and> strip (hd parts) = [] then tl parts else parts)"

definition parse_character_dialogue :: "pystr \<Rightarrow> (pystr \<times> pystr) list" where
  "parse_character_dialogue text =
     (if strip text = [] then []
      else parse_loop (split_parts (fix_encoding text)) [] None [])"

section \<open>Python lists and slices\<close>

text \<open>
  Indexing a list raises \<open>IndexError\<close> outside \<open>[-len, len)\<close> and counts a negative
  index from the end; slicing never raises and clamps its bound into \<open>[0, len]\<close>;
  \<open>insert\<close> clamps its position like a slice bound; \<open>pop\<close> raises like indexing.
  A raised exception is the value \<open>None\<close>.
\<close>

definition py_index :: "nat \<Rightarrow> int \<Rightarrow> nat option" where
  "py_index n i =
     (let j = (if i < 0 then int n + i else i)
      in if 0 \<le> j \<and> j < int n then Some (nat j) else None)"

definition py_get :: "'a list \<Rightarrow> int \<Rightarrow> 'a option" where
  "py_get xs i = map_option (\<lambda>j. xs ! j) (py_index (length xs) i)"

definition py_set :: "'a list \<Rightarrow> int \<Rightarrow> 'a \<Rightarrow> 'a list option" where
  "py_set xs i v = map_option (\<lambda>j. xs[j := v]) (py_index (length xs) i)"

definition py_pop :: "'a list \<Rightarrow> int \<Rightarrow> 'a list option" where
  "py_pop xs i = map_option (\<lambda>j. take j xs @ drop (Suc j) xs) (py_index (length xs) i)"

definition slice_bound :: "nat \<Rightarrow> int \<Rightarrow> nat" where
  "slice_bound n k = (if k < 0 then nat (max 0 (int n + k)) else min (nat k) n)"

definition slice_to :: "'a list \<Rightarrow> int \<Rightarrow> 'a list" where
  "slice_to xs k = take (slice_bound (length xs) k) xs"

definition slice_from :: "'a list \<Rightarrow> int \<Rightarrow> 'a list" where
  "slice_from xs k = drop (slice_bound (length xs) k) xs"

definition py_insert :: "'a list \<Rightarrow> int \<Rightarrow> 'a \<Rightarrow> 'a list" where
  "py_insert xs i v =
     (let j = slice_bound (length xs) i in take j xs @ v # drop j xs)"

definition py_len :: "'a list \<Rightarrow> int" where
  "py_len xs = int (length xs)"

text \<open>\<open>chr\<close> raises \<open>ValueError\<close> outside the range of Unicode.\<close>

definition py_chr :: "int \<Rightarrow> codepoint option" where
  "py_chr ch = (if 0 \<le> ch \<and> ch \<le> 0x10FFFF then Some (nat ch) else None)"

text \<open>\<open>text.split('\n')\<close> and \<open>sep.join(pieces)\<close>.\<close>

fun split_lines :: "pystr \<Rightarrow> pystr list" where
  "split_lines [] = [[]]"
| "split_lines (c # cs) =
     (if c = 0x0A then [] # split_lines cs
      else (case split_lines cs of l # ls \<Rightarrow> (c # l) # ls | [] \<Rightarrow> [[c]]))"

fun join :: "'a list \<Rightarrow> 'a list list \<Rightarrow> 'a list" where
  "join sep [] = []"
| "join sep [l] = l"
| "join sep (l # ls) = l @ sep @ join sep ls"

section \<open>The text editor\<close>

text \<open>
  The fields of \<open>ScrollableTextbox\<close> that its editing methods read or write. The
  curses windows, the width, the origin and the prompt only reach the screen.
\<close>

record textbox =
  lines :: "pystr list"
  current_line :: int
  current_col :: int
  scroll_pos :: int
  height :: int

definition init :: "int \<Rightarrow> textbox" where
  "init h = \<lparr>lines = [[]], current_line = 0, current_col = 0, scroll_pos = 0, height = h\<rparr>"

definition adjust_scroll :: "textbox \<Rightarrow> textbox" where
  "adjust_scroll s =
     (if current_line s < scroll_pos s then s\<lparr>scroll_pos := current_line s\<rparr>
      else if current_line s \<ge> scroll_pos s + height s
      then s\<lparr>scroll_pos := current_line s - height s + 1\<rparr>
      else s)"

text \<open>
  \<open>_update_display\<close> adjusts the scroll position and then reads the current line to
  place the cursor; drawing itself leaves the fields alone.
\<close>

definition update_display :: "textbox \<Rightarrow> textbox option" where
  "update_display s =
     (let s1 = adjust_scroll s
      in do { _ \<leftarrow> py_get (lines s1) (current_line s1); Some s1 })"

definition clamp_col :: "textbox \<Rightarrow> textbox option" where
  "clamp_col s =
     do { l \<leftarrow> py_get (lines s) (current_line s);
          Some (s\<lparr>current_col := min (current_col s) (py_len l)\<rparr>) }"

definition move_up :: "textbox \<Rightarrow> textbox option" where
  "move_up s =
     (if current_line s > 0 then clamp_col (s\<lparr>current_line := current_line s - 1\<rparr>)
      else Some s)"

definition move_down :: "textbox \<Rightarrow> textbox option" where
  "move_down s =
     (if current_line s < py_len (lines s) - 1
      then clamp_col (s\<lparr>current_line := current_line s + 1\<rparr>)
      else Some s)"

definition move_left :: "textbox \<Rightarrow> textbox option" where
  "move_left s =
     (if current_col s > 0 then Some (s\<lparr>current_col := current_col s - 1\<rparr>)
      else if current_line s > 0
      then (let s1 = s\<lparr>current_line := current_line s - 1\<rparr>
            in do { l \<leftarrow> py_get (lines s1) (current_line s1);
                    Some (s1\<lparr>current_col := py_len l\<rparr>) })
      else Some s)"

definition move_right :: "textbox \<Rightarrow> textbox option" where
  "move_right s =
     do { l \<leftarrow> py_get (lines s) (current_line s);
          if current_col s < py_len l then Some (s\<lparr>current_col := current_col s + 1\<rparr>)
          else if current_line s < py_len (lines s) - 1
          then Some (s\<lparr>current_line := current_line s + 1, current_col := 0\<rparr>)
          else Some s }"

definition move_home :: "textbox \<Rightarrow> textbox option" where
  "move_home s = Some (s\<lparr>current_col := 0\<rparr>)"

definition move_end :: "textbox \<Rightarrow> textbox option" where
  "move_end s =
     do { l \<leftarrow> py_get (lines s) (current_line s); Some (s\<lparr>current_col := py_len l\<rparr>) }"

definition page_up :: "textbox \<Rightarrow> textbox option" where
  "page_up s =
     clamp_col (s\<lparr>current_line := max 0 (current_line s - height s),
                  scroll_pos := max 0 (scroll_pos s - height s)\<rparr>)"

definition page_down :: "textbox \<Rightarrow> textbox option" where
  "page_down s =
     clamp_col (s\<lparr>current_line := min (py_len (lines s) - 1) (current_line s + height s),
                  scroll_pos := min (py_len (lines s) - 1) (scroll_pos s + height s)\<rparr>)"

definition insert_char :: "codepoint \<Rightarrow> textbox \<Rightarrow> textbox option" where
  "insert_char char s =
     do { current \<leftarrow> py_get (lines s) (current_line s);
          ls \<leftarrow> py_set (lines s) (current_line s)
                 (slice_to current (current_col s) @ [char] @ slice_from current (current_col s));
          Some (s\<lparr>lines := ls, current_col := current_col s + 1\<rparr>) }"

definition insert_newline :: "textbox \<Rightarrow> textbox option" where
  "insert_newline s =
     do { current \<leftarrow> py_get (lines s) (current_line s);
          ls \<leftarrow> py_set (lines s) (current_line s) (slice_to current (current_col s));
          Some (s\<lparr>lines := py_insert ls (current_line s + 1) (slice_from current (current_col s)),
                   current_line := current_line s + 1,
                   current_col := 0\<rparr>) }"

definition backspace :: "textbox \<Rightarrow> textbox option" where
  "backspace s =
     (if current_col s > 0
      then do { current \<leftarrow> py_get (lines s) (current_line s);
                ls \<leftarrow> py_set (lines s) (current_line s)
                       (slice_to current (current_col s - 1) @ slice_from current (current_col s));
                Some (s\<lparr>lines := ls, current_col := current_col s - 1\<rparr>) }
      else if current_line s > 0
      then do { prev \<leftarrow> py_get (lines s) (current_line s - 1);
                cur \<leftarrow> py_get (lines s) (current_line s);
                ls \<leftarrow> py_set (lines s) (current_line s - 1) (prev @ cur);
                ls' \<leftarrow> py_pop ls (current_line s);
                Some (s\<lparr>lines := ls', current_line := current_line s - 1,
                         current_col := py_len prev\<rparr>) }
      else Some s)"

definition delete :: "textbox \<Rightarrow> textbox option" where
  "delete s =
     do { current \<leftarrow> py_get (lines s) (current_line s);
          if current_col s < py_len current
          then do { ls \<leftarrow> py_set (lines s) (current_line s)
                           (slice_to current (current_col s) @ slice_from current (current_col s + 1));
                    Some (s\<lparr>lines := ls\<rparr>) }
          else if current_line s < py_len (lines s) - 1
          then do { cur \<leftarrow> py_get (lines s) (current_line s);
                    nxt \<leftarrow> py_get (lines s) (current_line s + 1);
                    ls \<leftarrow> py_set (lines s) (current_line s) (cur @ nxt);
                    ls' \<leftarrow> py_pop ls (current_line s + 1);
                    Some (s\<lparr>lines := ls'\<rparr>) }
          else Some s }"

definition set_text :: "pystr \<Rightarrow> textbox \<Rightarrow> textbox option" where
  "set_text text s =
     (let ls = split_lines text;
          ls = (if ls = [] then [[]] else ls)
      in update_display (s\<lparr>lines := ls, current_line := 0, current_col := 0, scroll_pos := 0\<rparr>))"

text \<open>
  The key codes that \<open>getch\<close> delivers for the special keys are constants of the curses
  library, here with the values ncurses gives them.
\<close>

definition KEY_DOWN :: int where "KEY_DOWN = 258"
definition KEY_UP :: int where "KEY_UP = 259"
definition KEY_LEFT :: int where "KEY_LEFT = 260"
definition KEY_RIGHT :: int where "KEY_RIGHT = 261"
definition KEY_HOME :: int where "KEY_HOME = 262"
definition KEY_BACKSPACE :: int where "KEY_BACKSPACE = 263"
definition KEY_DC :: int where "KEY_DC = 330"
definition KEY_NPAGE :: int where "KEY_NPAGE = 338"
definition KEY_PPAGE :: int where "KEY_PPAGE = 339"
definition KEY_END :: int where "KEY_END = 360"
definition KEY_RESIZE :: int where "KEY_RESIZE = 410"

text \<open>
  The dispatch on one key code inside the loop of \<open>edit\<close>, in the order of its
  \<open>elif\<close> chain (Ctrl+G, which leaves the loop, is tested before it). Resizing and
  the paste notice touch only the curses windows; here their curses calls go through,
  and the loop below has the case that one of them raises.
\<close>

definition handle_key :: "int \<Rightarrow> textbox \<Rightarrow> textbox option" where
  "handle_key ch s =
     (if ch = KEY_UP then move_up s
      else if ch = KEY_DOWN then move_down s
      else if ch = KEY_LEFT then move_left s
      else if ch = KEY_RIGHT then move_right s
      else if ch = KEY_HOME then move_home s
      else if ch = KEY_END then move_end s
      else if ch = KEY_PPAGE then page_up s
      else if ch = KEY_NPAGE then page_down s
      else if ch = 10 then insert_newline s
      else if ch = 127 \<or> ch = KEY_BACKSPACE then backspace s
      else if ch = KEY_DC then delete s
      else if ch = KEY_RESIZE then Some s
      else if ch = 22 then Some s
      else if (32 \<le> ch \<and> ch \<le> 126) \<or> ch > 127
      then do { char \<leftarrow> py_chr ch; insert_char char s }
      else Some s)"

text \<open>
  \<open>edit\<close> runs until a key event or an exception ends it. What the terminal and the
  user do during one pass of its loop is the input of the model, one event per pass:
  \<^item> \<open>Key ch\<close>: the redraw goes through and \<open>getch\<close> returns the key code \<open>ch\<close>;
  \<^item> \<open>Key_curses_error ch\<close>: the same, but a curses call made by the handler of the
    key raises \<open>curses.error\<close> (the handlers of a resize and of Ctrl+V make such
    calls, outside any guard);
  \<^item> \<open>Interrupt\<close>: the redraw goes through and \<open>KeyboardInterrupt\<close> is raised inside the
    \<open>try\<close> block, while \<open>getch\<close> waits or a handler runs;
  \<^item> \<open>Interrupt_outside\<close>: \<open>KeyboardInterrupt\<close> is raised while code outside the \<open>try\<close>
    block runs: the redraw at the top of the pass, for the first pass also the
    \<open>clear\<close> and \<open>refresh\<close> in front of the loop, and behind Ctrl+G the joining and
    normalizing of the lines;
  \<^item> \<open>Curses_error_outside\<close>: an unguarded curses call of that code (\<open>_draw_border\<close>,
    \<open>clear\<close>, \<open>refresh\<close>) raises \<open>curses.error\<close>.

  Only \<open>KeyboardInterrupt\<close> inside the \<open>try\<close> block is caught, and answered with the
  empty string. Every other exception leaves \<open>edit\<close>; when the events run out the loop
  is still waiting in \<open>getch\<close>.
\<close>

datatype event =
    Key int
  | Key_curses_error int
  | Interrupt
  | Interrupt_outside
  | Curses_error_outside

datatype exn = KeyboardInterrupt | CursesError | IndexOrValueError

datatype outcome = Returned pystr | Raised exn | Waiting

text \<open>
  The branches of the dispatch that call curses outside a guard: \<open>_handle_resize\<close> and
  \<open>_handle_paste\<close>. Their key codes pass none of the tests in front of them.
\<close>

definition calls_curses :: "int \<Rightarrow> bool" where
  "calls_curses ch \<longleftrightarrow> ch = KEY_RESIZE \<or> ch = 22"

text \<open>
  Behind the \<open>break\<close> of Ctrl+G: the lines are joined and normalized, outside the
  \<open>try\<close> block.
\<close>

fun finish :: "textbox \<Rightarrow> event list \<Rightarrow> outcome" where
  "finish s (Interrupt_outside # es) = Raised KeyboardInterrupt"
| "finish s es = Returned (fix_encoding (join [0x0A] (lines s)))"

fun edit_loop :: "textbox \<Rightarrow> event list \<Rightarrow> outcome" where
  "edit_loop s [] =
     (case update_display s of None \<Rightarrow> Raised IndexOrValueError | Some s1 \<Rightarrow> Waiting)"
| "edit_loop s (Interrupt_outside # es) = Raised KeyboardInterrupt"
| "edit_loop s (Curses_error_outside # es) = Raised CursesError"
| "edit_loop s (Interrupt # es) =
     (case update_display s of
        None \<Rightarrow> Raised IndexOrValueError
      | Some s1 \<Rightarrow> Returned [])"
| "edit_loop s (Key ch # es) =
     (case update_display s of
        None \<Rightarrow> Raised IndexOrValueError
      | Some s1 \<Rightarrow>
          if ch = 7 then finish s1 es
          else (case handle_key ch s1 of
                  None \<Rightarrow> Raised IndexOrValueError
                | Some s2 \<Rightarrow> edit_loop s2 es))"
| "edit_loop s (Key_curses_error ch # es) =
     (case update_display s of
        None \<Rightarrow> Raised IndexOrValueError
      | Some s1 \<Rightarrow>
          if ch = 7 then finish s1 es
          else if calls_curses ch then Raised CursesError
          else (case handle_key ch s1 of
                  None \<Rightarrow> Raised IndexOrValueError
                | Some s2 \<Rightarrow> edit_loop s2 es))"

definition edit :: "textbox \<Rightarrow> event list \<Rightarrow> outcome" where
  "edit s events = edit_loop s events"

text \<open>
  The states an editor can be in: \<open>__init__\<close> builds the first one (\<open>curses.newwin\<close>
  raises on a negative size, so the constructor completes only for a height of at least
  0), and \<open>set_text\<close>, a redraw and every dispatched key lead from one to the next.
\<close>

inductive reachable :: "textbox \<Rightarrow> bool" where
  reachable_init: "0 \<le> h \<Longrightarrow> reachable (init h)"
| reachable_set_text: "reachable s \<Longrightarrow> set_text text s = Some s' \<Longrightarrow> reachable s'"
| reachable_display: "reachable s \<Longrightarrow> update_display s = Some s' \<Longrightarrow> reachable s'"
| reachable_key: "reachable s \<Longrightarrow> handle_key ch s = Some s' \<Longrightarrow> reachable s'"

text \<open>The cursor movements, and a sequence of them run from a state.\<close>

datatype movement = Up | Down | Left | Right | Home | End | Page_up | Page_down

fun move :: "movement \<Rightarrow> textbox \<Rightarrow> textbox option" where
  "move Up s = move_up s"
| "move Down s = move_down s"
| "move Left s = move_left s"
| "move Right s = move_right s"
| "move Home s = move_home s"
| "move End s = move_end s"
| "move Page_up s = page_up s"
| "move Page_down s = page_down s"

fun run_moves :: "textbox \<Rightarrow> movement list \<Rightarrow> textbox option" where
  "run_moves s [] = Some s"
| "run_moves s (m # ms) = (case move m s of None \<Rightarrow> None | Some s' \<Rightarrow> run_moves s' ms)"

text \<open>
  The bounds that every state of the editor is meant to keep: at least one line, the
  cursor on a line of the buffer and on a column of that line or just behind its end,
  and a scroll position and a height that are not negative.
\<close>

definition editor_inv :: "textbox \<Rightarrow> bool" where
  "editor_inv s \<longleftrightarrow>
     1 \<le> length (lines s) \<and>
     0 \<le> current_line s \<and> current_line s < py_len (lines s) \<and>
     0 \<le> current_col s \<and> current_col s \<le> py_len (lines s ! nat (current_line s)) \<and>
     0 \<le> scroll_pos s \<and> 0 \<le> height s"

section \<open>The document generator\<close>

text \<open>
  A raw string literal of the source, given as its lines and each line as the pieces
  between its backslashes.
\<close>

definition raw :: "string list list \<Rightarrow> pystr" where
  "raw ls = join [0x0A] (map (\<lambda>segs. join [0x5C] (map str segs)) ls)"

definition latex_special_chars :: "(pystr \<times> pystr) list" where
  "latex_special_chars =
    [(str ''&'', raw [['''', ''&'']]),
     (str ''%'', raw [['''', ''%'']]),
     (str ''$'', raw [['''', ''$'']]),
     (str ''#'', raw [['''', ''#'']]),
     (str ''_'', raw [['''', ''_'']]),
     (str ''{'', raw [['''', ''{'']]),
     (str ''}'', raw [['''', ''}'']]),
     (str ''~'', raw [['''', ''textasciitilde{}'']]),
     (str ''^'', raw [['''', ''textasciicircum{}'']]),
     ([0x5C], raw [['''', ''textbackslash{}'']]),
     (str ''<'', raw [['''', ''textless{}'']]),
     (str ''>'', raw [['''', ''textgreater{}'']])]"

definition escape_latex_special_chars :: "pystr \<Rightarrow> pystr" where
  "escape_latex_special_chars text =
     foldl (\<lambda>t (char, replacement). replace char replacement t) text latex_special_chars"

definition preamble :: "pystr \<Rightarrow> pystr \<Rightarrow> pystr" where
  "preamble title author =
     raw
     [['''', ''documentclass[12pt,a4paper]{article}''],
      ['''', ''usepackage[margin=1in]{geometry}''],
      ['''', ''usepackage{parallel}''],
      ['''', ''usepackage{fontspec}''],
      ['''', ''usepackage{polyglossia}''],
      ['''', ''usepackage{microtype}''],
      ['''', ''usepackage{titlesec}''],
      ['''', ''usepackage{fancyhdr}''],
      ['''', ''usepackage{xcolor}''],
      ['''', ''usepackage[utf8]{inputenc}''],
      [''''],
      [''% Set up multilingual support''],
      ['''', ''setmainlanguage{english}''],
      ['''', ''setotherlanguage{spanish} % For Spanish support''],
      [''''],
      [''% Use a font with good Unicode support''],
      ['''', ''setmainfont{DejaVu Serif}''],
      ['''', ''setsansfont{DejaVu Sans}''],
      [''''],
      [''% Character name styling''],
      ['''', ''newcommand{'', ''charname}[1]{'', ''textbf{'', ''textcolor{blue}{#1}}}''],
      [''''],
      [''% Custom title format''],
      ['''', ''titleformat{'', ''section}''],
      [''  {'', ''normalfont'', ''Large'', ''bfseries}{'', ''thesection}{1em}{}''],
      [''''],
      [''% Page style setup''],
      ['''', ''pagestyle{fancy}''],
      ['''', ''fancyhf{}''],
      ['''', ''rhead{Parallel Translation}''],
      ['''', ''lhead{'', ''thepage}''],
      ['''', ''renewcommand{'', ''headrulewidth}{0.4pt}''],
      ['''', ''renewcommand{'', ''footrulewidth}{0.4pt}''],
      [''''],
      ['''', ''title{'']]
     @ title @
     raw
     [[''}''],
      ['''', ''author{'']]
     @ author @
     raw
     [[''}''],
      ['''', ''date{'', ''today}''],
      [''''],
      ['''', ''begin{document}''],
      [''''],
      ['''', ''maketitle''],
      [''''],
      ['''', ''begin{Parallel}{0.48'', ''textwidth}{0.48'', ''textwidth}''],
      ['''']]"

definition ending :: pystr where
  "ending =
     raw
     [[''''],
      ['''', ''end{Parallel}''],
      [''''],
      ['''', ''end{document}''],
      ['''']]"

text \<open>
  One side of a pair, as the loop body writes it: the command that opens the column,
  the character name without its brackets, and the text with a line break command
  before every line feed; names and text normalized and then escaped.
\<close>

definition column :: "string \<Rightarrow> pystr \<times> pystr \<Rightarrow> pystr" where
  "column command entry =
     (let char_formatted = strip_chars (str ''[]'') (fst entry);
          char_formatted = fix_encoding char_formatted;
          text = fix_encoding (snd entry);
          char_formatted = escape_latex_special_chars char_formatted;
          text = escape_latex_special_chars text
      in raw [['''', command], ['''']]
         @ raw [['''', ''charname{'']] @ char_formatted @ raw [[''}''], ['''']]
         @ replace [0x0A] (raw [['''', '''', ''''], ['''']]) text @ [0x0A]
         @ raw [[''}''], ['''']])"

text \<open>
  What one pass of the loop body appends for the pair with index \<open>i\<close>: the left
  column, the right column, and the paragraph separator unless the pair is the last.
\<close>

definition dialogue_pair :: "int \<Rightarrow> nat \<Rightarrow> pystr \<times> pystr \<Rightarrow> pystr \<times> pystr \<Rightarrow> pystr" where
  "dialogue_pair num_dialogues i left right =
     column ''ParallelLText{%'' left
     @ column ''ParallelRText{%'' right
     @ (if int i < num_dialogues - 1 then raw [['''', ''ParallelPar''], ['''']] else [])"

text \<open>
  The \<open>for i in range(num_dialogues)\<close> loop, over the indices still to come, reading
  both sequences at \<open>i\<close> and appending to \<open>latex\<close>.
\<close>

fun latex_loop ::
  "nat list \<Rightarrow> int \<Rightarrow> (pystr \<times> pystr) list \<Rightarrow> (pystr \<times> pystr) list \<Rightarrow> pystr
   \<Rightarrow> pystr option"
where
  "latex_loop [] num_dialogues left_dialogues right_dialogues latex = Some latex"
| "latex_loop (i # is) num_dialogues left_dialogues right_dialogues latex =
     do { left \<leftarrow> py_get left_dialogues (int i);
          right \<leftarrow> py_get right_dialogues (int i);
          latex_loop is num_dialogues left_dialogues right_dialogues
            (latex @ dialogue_pair num_dialogues i left right) }"

definition generate_latex ::
  "pystr \<Rightarrow> pystr \<Rightarrow> (pystr \<times> pystr) list \<Rightarrow> (pystr \<times> pystr) list \<Rightarrow> pystr option"
where
  "generate_latex title author left_dialogues right_dialogues =
     (let title = escape_latex_special_chars title;
          author = escape_latex_special_chars author;
          latex = preamble title author;
          num_dialogues = min (length left_dialogues) (length right_dialogues)
      in do { latex \<leftarrow> latex_loop [0..<num_dialogues] (int num_dialogues)
                          left_dialogues right_dialogues latex;
              Some (latex @ ending) })"

section \<open>Occurrences of a pattern\<close>

text \<open>
  The number of positions of a text at which a pattern starts, to count the entries
  of a generated document.
\<close>

fun occurrences :: "'a list \<Rightarrow> 'a list \<Rightarrow> nat" where
  "occurrences pat [] = (if pat = [] then 1 else 0)"
| "occurrences pat (c # cs) = (if prefix pat (c # cs) then 1 else 0) + occurrences pat cs"

text \<open>
  A text in which every backslash is directly followed by a character of a given kind,
  and so never stands at the end.
\<close>

fun guarded :: "(codepoint \<Rightarrow> bool) \<Rightarrow> pystr \<Rightarrow> bool" where
  "guarded D [] = True"
| "guarded D [c] = (c \<noteq> 0x5C)"
| "guarded D (c # d # r) = ((if c = 0x5C then D d else True) \<and> guarded D (d # r))"

section \<open>Auxiliary facts\<close>

subsection \<open>The operations of the editor keep the bounds\<close>

lemma py_get_valid: "0 \<le> i \<Longrightarrow> i < int (length xs) \<Longrightarrow> py_get xs i = Some (xs ! nat i)"
  by (simp add: py_get_def py_index_def)

lemma py_set_valid: "0 \<le> i \<Longrightarrow> i < int (length xs) \<Longrightarrow> py_set xs i v = Some (xs[nat i := v])"
  by (simp add: py_set_def py_index_def)

lemma py_pop_valid:
  "0 \<le> i \<Longrightarrow> i < int (length xs) \<Longrightarrow> py_pop xs i = Some (take (nat i) xs @ drop (Suc (nat i)) xs)"
  by (simp add: py_pop_def py_index_def)

lemma slice_to_valid: "0 \<le> k \<Longrightarrow> slice_to xs k = take (nat k) xs"
  by (simp add: slice_to_def slice_bound_def min_def)

lemma slice_from_valid: "0 \<le> k \<Longrightarrow> slice_from xs k = drop (nat k) xs"
  by (simp add: slice_from_def slice_bound_def min_def)

lemma py_insert_valid:
  "0 \<le> i \<Longrightarrow> py_insert xs i v = take (nat i) xs @ v # drop (nat i) xs"
  by (simp add: py_insert_def slice_bound_def min_def Let_def)

lemma editor_invE:
  assumes "editor_inv s"
  obtains l c where "current_line s = int l" "l < length (lines s)"
    "current_col s = int c" "c \<le> length (lines s ! l)" "0 \<le> scroll_pos s" "0 \<le> height s"
proof -
  from assms have a: "0 \<le> current_line s" "current_line s < int (length (lines s))"
    "0 \<le> current_col s" "current_col s \<le> int (length (lines s ! nat (current_line s)))"
    "0 \<le> scroll_pos s" "0 \<le> height s"
    by (simp_all add: editor_inv_def py_len_def)
  show thesis
    by (rule that [of "nat (current_line s)" "nat (current_col s)"]) (use a in auto)
qed

lemma editor_invI:
  "current_line s = int l \<Longrightarrow> l < length (lines s) \<Longrightarrow> current_col s = int c \<Longrightarrow>
   c \<le> length (lines s ! l) \<Longrightarrow> 0 \<le> scroll_pos s \<Longrightarrow> 0 \<le> height s \<Longrightarrow> editor_inv s"
  by (auto simp: editor_inv_def py_len_def)

lemma clamp_col_inv:
  assumes "1 \<le> length (lines s)" "0 \<le> current_line s" "current_line s < py_len (lines s)"
    "0 \<le> current_col s" "0 \<le> scroll_pos s" "0 \<le> height s"
  shows "\<exists>s'. clamp_col s = Some s' \<and> editor_inv s' \<and> lines s' = lines s
     \<and> current_line s' = current_line s \<and> scroll_pos s' = scroll_pos s \<and> height s' = height s"
  using assms by (simp add: clamp_col_def py_get_valid py_len_def editor_inv_def)

lemma move_up_inv: "editor_inv s \<Longrightarrow> \<exists>s'. move_up s = Some s' \<and> editor_inv s'"
  unfolding move_up_def
  by (auto simp: editor_inv_def py_len_def clamp_col_def py_get_valid)

lemma move_down_inv: "editor_inv s \<Longrightarrow> \<exists>s'. move_down s = Some s' \<and> editor_inv s'"
  unfolding move_down_def
  by (auto simp: editor_inv_def py_len_def clamp_col_def py_get_valid)

lemma move_left_inv: "editor_inv s \<Longrightarrow> \<exists>s'. move_left s = Some s' \<and> editor_inv s'"
  unfolding move_left_def
  by (auto simp: editor_inv_def py_len_def py_get_valid Let_def)

lemma move_right_inv: "editor_inv s \<Longrightarrow> \<exists>s'. move_right s = Some s' \<and> editor_inv s'"
  unfolding move_right_def
  by (auto simp: editor_inv_def py_len_def py_get_valid Let_def)

lemma move_home_inv: "editor_inv s \<Longrightarrow> \<exists>s'. move_home s = Some s' \<and> editor_inv s'"
  unfolding move_home_def
  by (auto simp: editor_inv_def py_len_def py_get_valid Let_def)

lemma move_end_inv: "editor_inv s \<Longrightarrow> \<exists>s'. move_end s = Some s' \<and> editor_inv s'"
  unfolding move_end_def
  by (auto simp: editor_inv_def py_len_def py_get_valid Let_def)

lemma page_up_inv: "editor_inv s \<Longrightarrow> \<exists>s'. page_up s = Some s' \<and> editor_inv s'"
proof -
  assume "editor_inv s"
  then have "\<exists>s'. clamp_col (s\<lparr>current_line := max 0 (current_line s - height s),
                  scroll_pos := max 0 (scroll_pos s - height s)\<rparr>) = Some s' \<and> editor_inv s' \<and>
      lines s' = lines (s\<lparr>current_line := max 0 (current_line s - height s),
                  scroll_pos := max 0 (scroll_pos s - height s)\<rparr>) \<and>
      current_line s' = current_line (s\<lparr>current_line := max 0 (current_line s - height s),
                  scroll_pos := max 0 (scroll_pos s - height s)\<rparr>) \<and>
      scroll_pos s' = scroll_pos (s\<lparr>current_line := max 0 (current_line s - height s),
                  scroll_pos := max 0 (scroll_pos s - height s)\<rparr>) \<and>
      height s' = height (s\<lparr>current_line := max 0 (current_line s - height s),
                  scroll_pos := max 0 (scroll_pos s - height s)\<rparr>)"
    by (intro clamp_col_inv) (auto simp: editor_inv_def py_len_def)
  then show ?thesis by (auto simp: page_up_def)
qed

lemma page_down_inv: "editor_inv s \<Longrightarrow> \<exists>s'. page_down s = Some s' \<and> editor_inv s'"
proof -
  let ?t = "s\<lparr>current_line := min (py_len (lines s) - 1) (current_line s + height s),
                  scroll_pos := min (py_len (lines s) - 1) (scroll_pos s + height s)\<rparr>"
  assume "editor_inv s"
  then have "\<exists>s'. clamp_col ?t = Some s' \<and> editor_inv s' \<and>
      lines s' = lines ?t \<and> current_line s' = current_line ?t \<and>
      scroll_pos s' = scroll_pos ?t \<and> height s' = height ?t"
    by (intro clamp_col_inv) (auto simp: editor_inv_def py_len_def)
  then show ?thesis by (auto simp: page_down_def)
qed

lemma insert_char_inv: "editor_inv s \<Longrightarrow> \<exists>s'. insert_char c s = Some s' \<and> editor_inv s'"
  unfolding insert_char_def
  by (auto simp: editor_inv_def py_len_def py_get_valid py_set_valid slice_to_valid slice_from_valid)

lemma insert_newline_inv: "editor_inv s \<Longrightarrow> \<exists>s'. insert_newline s = Some s' \<and> editor_inv s'"
  unfolding insert_newline_def
  by (auto simp: editor_inv_def py_len_def py_get_valid py_set_valid slice_to_valid
      slice_from_valid py_insert_valid nth_append nat_add_distrib)

lemma backspace_inv: "editor_inv s \<Longrightarrow> \<exists>s'. backspace s = Some s' \<and> editor_inv s'"
proof -
  assume "editor_inv s"
  then obtain l c where s: "current_line s = int l" "l < length (lines s)"
    "current_col s = int c" "c \<le> length (lines s ! l)" "0 \<le> scroll_pos s" "0 \<le> height s"
    by (rule editor_invE)
  show ?thesis
  proof (cases "c > 0")
    case True
    with s show ?thesis
      by (auto simp: backspace_def editor_inv_def py_len_def py_get_valid py_set_valid
          slice_to_valid slice_from_valid nat_diff_distrib)
  next
    case c0: False
    show ?thesis
    proof (cases "l > 0")
      case True
      then obtain k where k: "l = Suc k" by (cases l) auto
      with s c0 show ?thesis
        by (auto simp: backspace_def editor_inv_def py_len_def py_get_valid py_set_valid
            py_pop_valid nth_append min_def)
    next
      case False
      with s c0 show ?thesis
        by (auto simp: backspace_def editor_inv_def py_len_def Suc_le_eq)
    qed
  qed
qed

lemma delete_inv: "editor_inv s \<Longrightarrow> \<exists>s'. delete s = Some s' \<and> editor_inv s'"
proof -
  assume "editor_inv s"
  then obtain l c where s: "current_line s = int l" "l < length (lines s)"
    "current_col s = int c" "c \<le> length (lines s ! l)" "0 \<le> scroll_pos s" "0 \<le> height s"
    by (rule editor_invE)
  then show ?thesis
    by (auto simp: delete_def editor_inv_def py_len_def py_get_valid py_set_valid
          py_pop_valid slice_to_valid slice_from_valid nth_append min_def)
qed

lemma adjust_scroll_inv: "editor_inv s \<Longrightarrow> editor_inv (adjust_scroll s)"
  by (auto simp: adjust_scroll_def editor_inv_def)

lemma update_display_inv:
  "editor_inv s \<Longrightarrow> update_display s = Some (adjust_scroll s)"
  by (auto simp: update_display_def Let_def adjust_scroll_def editor_inv_def py_len_def py_get_valid)

lemma split_lines_not_Nil: "split_lines text \<noteq> []"
  by (induction "text") (auto split: list.splits)

lemma set_text_inv:
  "0 \<le> height s \<Longrightarrow> \<exists>s'. set_text text s = Some s' \<and> editor_inv s'"
  using split_lines_not_Nil [of "text"]
  by (auto simp: set_text_def Let_def update_display_def adjust_scroll_def editor_inv_def
      py_len_def py_get_valid neq_Nil_conv)

subsection \<open>Reachable states\<close>

lemma init_inv: "0 \<le> h \<Longrightarrow> editor_inv (init h)"
  by (simp add: init_def editor_inv_def py_len_def)

lemma op_pres:
  "\<exists>t. r = Some t \<and> editor_inv t \<Longrightarrow> r = Some s' \<Longrightarrow> editor_inv s'"
  by auto

lemma op_total: "\<exists>t. r = Some t \<and> editor_inv t \<Longrightarrow> \<exists>t. r = Some t"
  by auto

lemma handle_key_inv:
  assumes "editor_inv s" "handle_key ch s = Some s'"
  shows "editor_inv s'"
  using assms(2) assms(1) unfolding handle_key_def
  by (auto split: if_splits bind_splits
      dest: op_pres [OF move_up_inv [OF assms(1)]] op_pres [OF move_down_inv [OF assms(1)]]
        op_pres [OF move_left_inv [OF assms(1)]] op_pres [OF move_right_inv [OF assms(1)]]
        op_pres [OF move_home_inv [OF assms(1)]] op_pres [OF move_end_inv [OF assms(1)]]
        op_pres [OF page_up_inv [OF assms(1)]] op_pres [OF page_down_inv [OF assms(1)]]
        op_pres [OF insert_newline_inv [OF assms(1)]] op_pres [OF backspace_inv [OF assms(1)]]
        op_pres [OF delete_inv [OF assms(1)]] op_pres [OF insert_char_inv [OF assms(1)]])

lemma handle_key_total:
  assumes "editor_inv s" "ch \<le> 0x10FFFF"
  shows "\<exists>s'. handle_key ch s = Some s'"
proof -
  note ops = op_total [OF move_up_inv [OF assms(1)]] op_total [OF move_down_inv [OF assms(1)]]
        op_total [OF move_left_inv [OF assms(1)]] op_total [OF move_right_inv [OF assms(1)]]
        op_total [OF move_home_inv [OF assms(1)]] op_total [OF move_end_inv [OF assms(1)]]
        op_total [OF page_up_inv [OF assms(1)]] op_total [OF page_down_inv [OF assms(1)]]
        op_total [OF insert_newline_inv [OF assms(1)]] op_total [OF backspace_inv [OF assms(1)]]
        op_total [OF delete_inv [OF assms(1)]]
  have chr: "32 \<le> ch \<Longrightarrow> \<exists>s'. (py_chr ch \<bind> (\<lambda>char. insert_char char s)) = Some s'"
    using assms(2) insert_char_inv [OF assms(1), of "nat ch"] by (auto simp: py_chr_def)
  show ?thesis
    unfolding handle_key_def using ops chr by simp
qed

lemma reachable_inv: "reachable s \<Longrightarrow> editor_inv s"
proof (induction rule: reachable.induct)
  case (reachable_init h)
  then show ?case by (rule init_inv)
next
  case (reachable_set_text s t s')
  then show ?case using set_text_inv [of s t] by (auto simp: editor_inv_def)
next
  case (reachable_display s s')
  then show ?case using update_display_inv [of s] adjust_scroll_inv [of s] by auto
next
  case (reachable_key s ch s')
  then show ?case by (auto intro: handle_key_inv)
qed

lemma move_inv: "editor_inv s \<Longrightarrow> \<exists>s'. move m s = Some s' \<and> editor_inv s'"
  by (cases m)
     (simp_all add: move_up_inv move_down_inv move_left_inv move_right_inv move_home_inv
        move_end_inv page_up_inv page_down_inv)

lemma run_moves_inv: "editor_inv s \<Longrightarrow> \<exists>s'. run_moves s ms = Some s' \<and> editor_inv s'"
proof (induction ms arbitrary: s)
  case Nil
  then show ?case by simp
next
  case (Cons m ms)
  from move_inv [OF Cons.prems, of m] obtain s1 where "move m s = Some s1" "editor_inv s1"
    by blast
  with Cons.IH [of s1] show ?case by simp
qed

subsection \<open>The editing loop\<close>

lemma edit_loop_interrupt:
  assumes "editor_inv s" "\<forall>e \<in> set evs. \<exists>ch. e = Key ch \<and> ch \<noteq> 7 \<and> ch \<le> 0x10FFFF"
  shows "edit_loop s (evs @ Interrupt # rest) = Returned [] \<and>
         edit_loop s (evs @ Interrupt_outside # rest) = Raised KeyboardInterrupt \<and>
         edit_loop s (evs @ Key 7 # Interrupt_outside # rest) = Raised KeyboardInterrupt"
  using assms
proof (induction evs arbitrary: s)
  case Nil
  then show ?case by (simp add: update_display_inv)
next
  case (Cons e evs)
  from Cons.prems(2) obtain ch where e: "e = Key ch" "ch \<noteq> 7" "ch \<le> 0x10FFFF" by auto
  have a: "editor_inv (adjust_scroll s)" using Cons.prems(1) by (rule adjust_scroll_inv)
  from handle_key_total [OF a e(3)] obtain s2 where s2: "handle_key ch (adjust_scroll s) = Some s2"
    by blast
  from handle_key_inv [OF a s2] have "editor_inv s2" .
  with Cons.IH [of s2] Cons.prems(2)
  have "edit_loop s2 (evs @ Interrupt # rest) = Returned [] \<and>
        edit_loop s2 (evs @ Interrupt_outside # rest) = Raised KeyboardInterrupt \<and>
        edit_loop s2 (evs @ Key 7 # Interrupt_outside # rest) = Raised KeyboardInterrupt"
    by simp
  with e s2 show ?case by (simp add: update_display_inv [OF Cons.prems(1)])
qed

subsection \<open>Evaluation and example states\<close>

lemmas parse_eval = parse_character_dialogue_def split_parts_def str_def strip_def strip_by_def
  isspace_def fix_encoding_def encoding_fixes_def is_character_name_def strip_chars_def

lemma reachable_ex1:
  "reachable \<lparr>lines = [str ''ab'', str ''c''], current_line = 0, current_col = 0,
              scroll_pos = 0, height = 3\<rparr>"
proof -
  have "set_text (str ''ab\<newline>c'') (init 3) =
    Some \<lparr>lines = [str ''ab'', str ''c''], current_line = 0, current_col = 0,
              scroll_pos = 0, height = 3\<rparr>"
    by (simp add: set_text_def str_def init_def update_display_def adjust_scroll_def
        py_get_def py_index_def)
  with reachable_init [of 3] show ?thesis by (auto intro: reachable_set_text)
qed

lemma reachable_ex2:
  "reachable \<lparr>lines = [str ''ab'', str ''c''], current_line = 0, current_col = 1,
              scroll_pos = 0, height = 3\<rparr>"
proof -
  have "handle_key KEY_RIGHT \<lparr>lines = [str ''ab'', str ''c''], current_line = 0, current_col = 0,
              scroll_pos = 0, height = 3\<rparr> =
    Some \<lparr>lines = [str ''ab'', str ''c''], current_line = 0, current_col = 1,
              scroll_pos = 0, height = 3\<rparr>"
    by (simp add: handle_key_def KEY_RIGHT_def KEY_UP_def KEY_DOWN_def KEY_LEFT_def
        move_right_def str_def py_get_def py_index_def py_len_def)
  with reachable_ex1 show ?thesis by (rule reachable_key)
qed

lemma reachable_ex3:
  "reachable \<lparr>lines = [str ''ab'', str ''c''], current_line = 1, current_col = 1,
              scroll_pos = 0, height = 3\<rparr>"
proof -
  have "handle_key KEY_DOWN \<lparr>lines = [str ''ab'', str ''c''], current_line = 0, current_col = 1,
              scroll_pos = 0, height = 3\<rparr> =
    Some \<lparr>lines = [str ''ab'', str ''c''], current_line = 1, current_col = 1,
              scroll_pos = 0, height = 3\<rparr>"
    by (simp add: handle_key_def KEY_UP_def KEY_DOWN_def
        move_down_def clamp_col_def str_def py_get_def py_index_def py_len_def)
  with reachable_ex2 show ?thesis by (rule reachable_key)
qed

subsection \<open>The loop of the generator\<close>

lemma latex_loop_eq:
  "\<forall>i \<in> set is. i < length L \<and> i < length R \<Longrightarrow>
   latex_loop is n L R acc =
     Some (acc @ concat (map (\<lambda>i. dialogue_pair n i (L ! i) (R ! i)) is))"
  by (induction "is" arbitrary: acc) (simp_all add: py_get_valid)

subsection \<open>Replacement and splitting across a separator\<close>

lemma parse_loop_before_first_name:
  "parse_loop ps res None d =
   parse_loop (dropWhile (\<lambda>p. \<not> is_character_name p) ps) res None []"
  by (induction ps arbitrary: d) simp_all

lemma prefix_append_sep:
  assumes "c \<notin> set old"
  shows "prefix old (xs @ c # ys) \<longleftrightarrow> prefix old xs"
proof
  assume "prefix old (xs @ c # ys)"
  then have "prefix old xs \<or> (\<exists>us. old = xs @ us \<and> prefix us (c # ys))"
    by (simp add: prefix_append)
  then show "prefix old xs"
  proof
    assume "prefix old xs" then show ?thesis .
  next
    assume "\<exists>us. old = xs @ us \<and> prefix us (c # ys)"
    then obtain us where us: "old = xs @ us" "prefix us (c # ys)" by blast
    show ?thesis
    proof (cases us)
      case Nil
      with us show ?thesis by simp
    next
      case (Cons u us')
      with us have "c \<in> set old" by simp
      with assms show ?thesis by simp
    qed
  qed
next
  assume "prefix old xs" then show "prefix old (xs @ c # ys)" by (rule prefix_prefix)
qed

lemma replace_append_sep:
  "old \<noteq> [] \<Longrightarrow> c \<notin> set old \<Longrightarrow>
   replace old new (xs @ c # ys) = replace old new xs @ c # replace old new ys"
proof (induction old new xs rule: replace.induct)
  case (1 old new)
  then have "\<not> prefix old (c # ys)" by (cases old) auto
  with 1 show ?case by simp
next
  case (2 old new x xs)
  note sep = prefix_append_sep [OF "2.prems"(2), of "x # xs" ys]
  show ?case
  proof (cases "prefix old (x # xs)")
    case True
    then have "length old \<le> length (x # xs)" by (rule prefix_length_le)
    then have d: "drop (length old) (x # xs @ c # ys) = drop (length old) (x # xs) @ c # ys"
      using drop_append [of "length old" "x # xs" "c # ys"] by simp
    from True 2 sep show ?thesis by (simp add: d)
  next
    case False
    with 2 sep show ?thesis by simp
  qed
qed

lemma set_replace:
  "old \<noteq> [] \<Longrightarrow> set (replace old new t) \<subseteq> set t \<union> set new"
proof (induction old new t rule: replace.induct)
  case (1 old new)
  then show ?case by simp
next
  case (2 old new c cs)
  have "set (drop (length old) (c # cs)) \<subseteq> set (c # cs)" by (rule set_drop_subset)
  with 2 show ?case by (auto split: if_splits)
qed

lemma replace_not_Nil:
  "old \<noteq> [] \<Longrightarrow> new \<noteq> [] \<Longrightarrow> t \<noteq> [] \<Longrightarrow> replace old new t \<noteq> []"
  by (cases t) auto

lemma foldl_replace_sep:
  "\<forall>(old, new) \<in> set tbl. old \<noteq> [] \<and> c \<notin> set old \<Longrightarrow>
   foldl (\<lambda>t (old, new). replace old new t) (xs @ c # ys) tbl =
   foldl (\<lambda>t (old, new). replace old new t) xs tbl @ c #
   foldl (\<lambda>t (old, new). replace old new t) ys tbl"
  by (induction tbl arbitrary: xs ys) (auto simp: replace_append_sep)

lemma foldl_replace_notin:
  "\<forall>(old, new) \<in> set tbl. old \<noteq> [] \<and> c \<notin> set new \<Longrightarrow> c \<notin> set t \<Longrightarrow>
   c \<notin> set (foldl (\<lambda>t (old, new). replace old new t) t tbl)"
proof (induction tbl arbitrary: t)
  case Nil
  then show ?case by simp
next
  case (Cons e tbl)
  obtain old new where e: "e = (old, new)" by (cases e)
  with Cons.prems have "c \<notin> set (replace old new t)"
    using set_replace [of old new t] by auto
  with Cons e show ?case by simp
qed

lemma foldl_replace_not_Nil:
  "\<forall>(old, new) \<in> set tbl. old \<noteq> [] \<and> new \<noteq> [] \<Longrightarrow> t \<noteq> [] \<Longrightarrow>
   foldl (\<lambda>t (old, new). replace old new t) t tbl \<noteq> []"
  by (induction tbl arbitrary: t) (auto simp: replace_not_Nil)

lemma fix_encoding_sep:
  "c < 0x80 \<Longrightarrow> fix_encoding (xs @ c # ys) = fix_encoding xs @ c # fix_encoding ys"
  unfolding fix_encoding_def by (rule foldl_replace_sep) (simp add: encoding_fixes_def)

lemma fix_encoding_notin:
  "c < 0x80 \<Longrightarrow> c \<notin> set t \<Longrightarrow> c \<notin> set (fix_encoding t)"
  unfolding fix_encoding_def by (rule foldl_replace_notin) (simp_all add: encoding_fixes_def)

lemma fix_encoding_not_Nil: "t \<noteq> [] \<Longrightarrow> fix_encoding t \<noteq> []"
  unfolding fix_encoding_def by (rule foldl_replace_not_Nil) (simp_all add: encoding_fixes_def)

lemma re_split_not_Nil: "re_split t \<noteq> []"
  by (induction t rule: re_split.induct) (auto split: option.splits list.splits)

lemma match_bracketed_other: "c \<noteq> 0x5B \<Longrightarrow> match_bracketed (c # t) = None"
  by (cases t) auto

lemma re_split_plain_prefix:
  "0x5B \<notin> set p \<Longrightarrow> re_split (p @ t) = (p @ hd (re_split t)) # tl (re_split t)"
proof (induction p)
  case Nil
  then show ?case using re_split_not_Nil [of t] by simp
next
  case (Cons c p)
  then show ?case by (simp add: match_bracketed_other)
qed

lemma match_bracketed_label:
  assumes "lbl \<noteq> []" "0x5D \<notin> set lbl"
  shows "match_bracketed (0x5B # lbl @ 0x5D # rest) = Some (0x5B # lbl @ [0x5D], rest)"
proof -
  from assms obtain b bs where l: "lbl = b # bs" by (cases lbl) auto
  with assms have nb: "\<And>x. x \<in> set bs \<Longrightarrow> x \<noteq> 0x5D" by auto
  have "dropWhile (\<lambda>c. c \<noteq> 0x5D) (bs @ 0x5D # rest) = 0x5D # rest"
    using nb by (simp add: dropWhile_append2)
  moreover have "takeWhile (\<lambda>c. c \<noteq> 0x5D) (bs @ 0x5D # rest) = bs"
    using nb by (simp add: takeWhile_append2)
  ultimately show ?thesis using l assms by simp
qed

lemma not_name_without_bracket: "0x5B \<notin> set p \<Longrightarrow> \<not> is_character_name p"
  by (cases p) (auto simp: is_character_name_def)

lemma strip_Nil: "strip [] = []"
  by (simp add: strip_def strip_by_def)

lemma strip_bracket: "strip (pre @ 0x5B # t) \<noteq> []"
proof -
  have "\<not> isspace 0x5B" by (simp add: isspace_def)
  then have "0x5B \<in> set (strip (pre @ 0x5B # t))"
    unfolding strip_def strip_by_def
    by (metis (no_types, lifting) dropWhile_eq_Nil_conv in_set_conv_decomp set_dropWhileD
        set_rev dropWhile_append3 hd_dropWhile list.sel(1) list.set_sel(1) rev_is_Nil_conv)
  then show ?thesis by auto
qed

subsection \<open>Parsing behind plain text\<close>

lemma re_split_plain: "0x5B \<notin> set t \<Longrightarrow> re_split t = [t]"
  using re_split_plain_prefix [of t "[]"] by simp

lemma only_space_strip:
  assumes "\<forall>c \<in> set t. isspace c"
  shows "strip t = []"
proof -
  from assms have d: "dropWhile isspace t = []" by (simp add: dropWhile_eq_Nil_conv)
  show ?thesis unfolding strip_def strip_by_def d by simp
qed

lemma parse_without_bracket:
  assumes "0x5B \<notin> set t"
  shows "parse_character_dialogue t = []"
proof -
  from assms have nb: "0x5B \<notin> set (fix_encoding t)" by (simp add: fix_encoding_notin)
  then have "\<not> is_character_name (fix_encoding t)" by (rule not_name_without_bracket)
  then show ?thesis
    by (simp add: parse_character_dialogue_def split_parts_def Let_def re_split_plain [OF nb])
qed

lemma parse_plain_prefix:
  assumes "0x5B \<notin> set pre" "lbl \<noteq> []" "0x5D \<notin> set lbl"
  shows "parse_character_dialogue (pre @ 0x5B # lbl @ 0x5D # rest) =
         parse_character_dialogue (0x5B # lbl @ 0x5D # rest)"
proof -
  define m where "m = 0x5B # fix_encoding lbl @ [0x5D]"
  define ps where "ps = re_split (fix_encoding rest)"
  have f1: "fix_encoding (0x5B # lbl @ 0x5D # rest) = 0x5B # fix_encoding lbl @ 0x5D # fix_encoding rest"
    using fix_encoding_sep [of "0x5B" "[]" "lbl @ 0x5D # rest"] fix_encoding_sep [of "0x5D" lbl rest]
    by (simp add: fix_encoding_def encoding_fixes_def)
  have f2: "fix_encoding (pre @ 0x5B # lbl @ 0x5D # rest) =
            fix_encoding pre @ 0x5B # fix_encoding lbl @ 0x5D # fix_encoding rest"
    using fix_encoding_sep [of "0x5B" pre "lbl @ 0x5D # rest"] fix_encoding_sep [of "0x5D" lbl rest]
    by simp
  have l: "fix_encoding lbl \<noteq> []" "0x5D \<notin> set (fix_encoding lbl)"
    using assms by (simp_all add: fix_encoding_not_Nil fix_encoding_notin)
  have p: "0x5B \<notin> set (fix_encoding pre)"
    using assms by (simp add: fix_encoding_notin)
  have mb: "match_bracketed (0x5B # fix_encoding lbl @ 0x5D # fix_encoding rest) =
            Some (m, fix_encoding rest)"
    unfolding m_def by (rule match_bracketed_label [OF l])
  have s1: "re_split (0x5B # fix_encoding lbl @ 0x5D # fix_encoding rest) = [] # m # ps"
    by (simp only: re_split.simps mb ps_def option.case prod.case)
  have s2: "re_split (fix_encoding pre @ 0x5B # fix_encoding lbl @ 0x5D # fix_encoding rest) =
            fix_encoding pre # m # ps"
    by (simp only: re_split_plain_prefix [OF p] s1 list.sel append_Nil2)
  have right: "parse_character_dialogue (0x5B # lbl @ 0x5D # rest) = parse_loop (m # ps) [] None []"
    using strip_bracket [of "[]" "lbl @ 0x5D # rest"]
    by (simp add: parse_character_dialogue_def split_parts_def Let_def f1 s1 strip_Nil
        del: re_split.simps)
  have "parse_loop (fix_encoding pre # m # ps) [] None [] = parse_loop (m # ps) [] None []"
    using not_name_without_bracket [OF p]
      parse_loop_before_first_name [of "fix_encoding pre # m # ps" "[]" "[]"]
      parse_loop_before_first_name [of "m # ps" "[]" "[]"]
    by simp
  then have left: "parse_character_dialogue (pre @ 0x5B # lbl @ 0x5D # rest) =
      parse_loop (m # ps) [] None []"
    using strip_bracket [of pre "lbl @ 0x5D # rest"]
    by (simp add: parse_character_dialogue_def split_parts_def Let_def f2 s2
        del: re_split.simps)
  from left right show ?thesis by simp
qed

subsection \<open>Deleting a character in front of another\<close>

lemma replace_single:
  "replace [p] new (x # r) = (if x = p then new @ replace [p] new r else x # replace [p] new r)"
  by simp

lemma replace_pair_Nil: "replace [p, q] new [] = []"
  by simp

lemma replace_pair_single: "replace [p, q] new [x] = [x]"
  by simp

lemma replace_pair_Cons:
  "replace [p, q] new (x # y # r) =
     (if x = p \<and> y = q then new @ replace [p, q] new r else x # replace [p, q] new (y # r))"
  by simp

lemma sublist_pair_Cons:
  "sublist [a, b] (x # y # r) \<longleftrightarrow> (x = a \<and> y = b) \<or> sublist [a, b] (y # r)"
  by (auto simp: sublist_Cons_right)

lemma sublist_pair_single: "\<not> sublist [a, b] [x]"
  by (auto simp: sublist_Cons_right)

lemma sublist_triple_Cons:
  "sublist [a, b, c] (x # y # z # r) \<longleftrightarrow>
     (x = a \<and> y = b \<and> z = c) \<or> sublist [a, b, c] (y # z # r)"
  by (auto simp: sublist_Cons_right)

lemma sublist_triple_short: "\<not> sublist [a, b, c] [x]" "\<not> sublist [a, b, c] [x, y]"
  by (auto simp: sublist_Cons_right)

lemma hd_replace_pair:
  "a \<noteq> b \<Longrightarrow> prefix [c] (replace [a, b] [b] (y # r)) \<longleftrightarrow>
     (if y = a \<and> prefix [b] r then c = b else c = y)"
  by (cases r) auto

lemma sublist_after_deletion:
  "a \<noteq> b \<Longrightarrow> sublist [a, b] (replace [a, b] [b] t) \<longleftrightarrow> sublist [a, a, b] t"
proof (induction t rule: induct_list012)
  case 1
  then show ?case by simp
next
  case (2 x)
  then show ?case by (auto simp: sublist_Cons_right)
next
  case (3 x y zs)
  show ?case
  proof (cases "x = a \<and> y = b")
    case True
    with 3 show ?thesis by (auto simp: sublist_Cons_right)
  next
    case False
    have "sublist [a, b] (x # replace [a, b] [b] (y # zs)) \<longleftrightarrow>
          (x = a \<and> prefix [b] (replace [a, b] [b] (y # zs))) \<or>
          sublist [a, b] (replace [a, b] [b] (y # zs))"
      by (cases "replace [a, b] [b] (y # zs)") (auto simp: sublist_Cons_right)
    also have "\<dots> \<longleftrightarrow> (x = a \<and> y = a \<and> prefix [b] zs) \<or> sublist [a, a, b] (y # zs)"
      using False 3 by (auto simp: hd_replace_pair simp del: replace.simps)
    also have "\<dots> \<longleftrightarrow> sublist [a, a, b] (x # y # zs)"
      by (cases zs) (auto simp: sublist_Cons_right)
    finally show ?thesis using False by (simp only: replace_pair_Cons if_False)
  qed
qed

subsection \<open>Patterns that a replacement leaves alone\<close>

lemma prefix_replace_pair:
  "y \<notin> set w \<Longrightarrow> (w \<noteq> [] \<longrightarrow> last w \<noteq> p) \<Longrightarrow> \<not> sublist [p, q] w \<Longrightarrow>
   prefix w (replace [p, q] [y] u) \<longleftrightarrow> prefix w u"
proof (induction w arbitrary: u)
  case Nil
  then show ?case by simp
next
  case (Cons c w)
  have w: "y \<notin> set w" "w \<noteq> [] \<longrightarrow> last w \<noteq> p" "\<not> sublist [p, q] w"
    using Cons.prems by (auto simp: sublist_Cons_right)
  note IH = Cons.IH [OF w]
  have cy: "c \<noteq> y" using Cons.prems by auto
  show ?case
  proof (cases u)
    case Nil
    then show ?thesis by simp
  next
    case u: (Cons x u')
    show ?thesis
    proof (cases u')
      case Nil
      with u show ?thesis by simp
    next
      case u': (Cons x' zs)
      show ?thesis
      proof (cases "x = p \<and> x' = q")
        case True
        have "\<not> prefix (c # w) (p # q # zs)"
        proof (cases w)
          case Nil
          with Cons.prems show ?thesis by auto
        next
          case (Cons d w')
          with Cons.prems show ?thesis by (auto simp: sublist_Cons_right)
        qed
        with True u u' cy show ?thesis by simp
      next
        case False
        then have R: "replace [p, q] [y] (x # x' # zs) = x # replace [p, q] [y] (x' # zs)"
          by auto
        show ?thesis unfolding u u' R using IH [of "x' # zs"] by simp
      qed
    qed
  qed
qed

lemma sublist_replace_pair:
  assumes "y \<notin> set w" "w \<noteq> []" "last w \<noteq> p" "hd w \<noteq> q" "\<not> sublist [p, q] w"
  shows "sublist w (replace [p, q] [y] t) \<longleftrightarrow> sublist w t"
proof (induction t rule: induct_list012)
  case 1
  then show ?case by simp
next
  case (2 x)
  then show ?case by simp
next
  case (3 x x' zs)
  obtain c w' where w: "w = c # w'" using assms(2) by (cases w) auto
  show ?case
  proof (cases "x = p \<and> x' = q")
    case True
    have "\<not> prefix w (p # q # zs)"
      using prefix_replace_pair [of y w p q "[p, q]"] assms by (cases w') (auto simp: w sublist_Cons_right)
    moreover have "\<not> prefix w (q # zs)" using assms(4) by (simp add: w)
    moreover have "\<not> prefix w (y # replace [p, q] [y] zs)" using assms(1) by (auto simp: w)
    ultimately show ?thesis using True 3 by (simp add: sublist_Cons_right)
  next
    case False
    then have R: "replace [p, q] [y] (x # x' # zs) = x # replace [p, q] [y] (x' # zs)"
      by auto
    have "prefix w (replace [p, q] [y] (x # x' # zs)) \<longleftrightarrow> prefix w (x # x' # zs)"
      using assms by (intro prefix_replace_pair) auto
    then have "prefix w (x # replace [p, q] [y] (x' # zs)) \<longleftrightarrow> prefix w (x # x' # zs)"
      unfolding R .
    with 3 show ?thesis
      unfolding R by (simp only: sublist_Cons_right [of w])
  qed
qed

lemma prefix_replace_single:
  "p \<notin> set w \<Longrightarrow> y \<notin> set w \<Longrightarrow> prefix w (replace [p] [y] u) \<longleftrightarrow> prefix w u"
proof (induction w arbitrary: u)
  case Nil
  then show ?case by simp
next
  case (Cons c w)
  then show ?case by (cases u) auto
qed

lemma sublist_replace_single:
  assumes "p \<notin> set w" "y \<notin> set w" "w \<noteq> []"
  shows "sublist w (replace [p] [y] t) \<longleftrightarrow> sublist w t"
proof (induction t)
  case Nil
  then show ?case by simp
next
  case (Cons x t)
  obtain c w' where w: "w = c # w'" using assms(3) by (cases w) auto
  with assms have c: "c \<noteq> p" "c \<noteq> y" by auto
  show ?case
  proof (cases "x = p")
    case True
    then have R: "replace [p] [y] (x # t) = y # replace [p] [y] t" by simp
    have "\<not> prefix w (y # replace [p] [y] t)" "\<not> prefix w (p # t)"
      using c by (simp_all add: w)
    with Cons True show ?thesis
      unfolding R by (simp only: sublist_Cons_right [of w] simp_thms)
  next
    case False
    then have R: "replace [p] [y] (x # t) = x # replace [p] [y] t" by simp
    have "prefix w (replace [p] [y] (x # t)) \<longleftrightarrow> prefix w (x # t)"
      using assms by (intro prefix_replace_single) auto
    with Cons show ?thesis
      unfolding R by (simp only: sublist_Cons_right [of w])
  qed
qed

lemma notin_replace_single: "p \<noteq> y \<Longrightarrow> p \<notin> set (replace [p] [y] t)"
  by (induction t) auto

lemma replace_absent: "p \<notin> set t \<Longrightarrow> replace (p # old) new t = t"
  by (induction t) auto

lemma length_replace_pair:
  "length (replace [a, b] [c] t) \<le> length t \<and>
   (replace [a, b] [c] t \<noteq> t \<longrightarrow> length (replace [a, b] [c] t) < length t)"
proof (induction t rule: induct_list012)
  case 1
  then show ?case by simp
next
  case (2 x)
  then show ?case by simp
next
  case (3 x y zs)
  show ?case
  proof (cases "x = a \<and> y = b")
    case True
    then have "replace [a, b] [c] (x # y # zs) = c # replace [a, b] [c] zs" by simp
    with 3(1) show ?thesis by simp
  next
    case False
    then have "replace [a, b] [c] (x # y # zs) = x # replace [a, b] [c] (y # zs)" by auto
    with 3(2) show ?thesis by simp
  qed
qed

lemma replace_pair_fixed:
  "a \<noteq> b \<Longrightarrow> replace [a, b] [b] t = t \<longleftrightarrow> \<not> sublist [a, b] t"
proof (induction t rule: induct_list012)
  case 1
  then show ?case by simp
next
  case (2 x)
  then show ?case by (simp add: sublist_Cons_right)
next
  case (3 x y zs)
  show ?case
  proof (cases "x = a \<and> y = b")
    case True
    have "length (replace [a, b] [b] zs) \<le> length zs"
      using length_replace_pair [of a b b zs] by simp
    then have "b # replace [a, b] [b] zs \<noteq> a # b # zs"
      by auto
    with True show ?thesis by (simp add: sublist_Cons_right)
  next
    case False
    then have R: "replace [a, b] [b] (x # y # zs) = x # replace [a, b] [b] (y # zs)"
      by auto
    have "sublist [a, b] (x # y # zs) \<longleftrightarrow> sublist [a, b] (y # zs)"
      using False by (auto simp: sublist_pair_Cons)
    with 3(2) [OF 3(3)] show ?thesis
      unfolding R by simp
  qed
qed

subsection \<open>The stages of the normalizer\<close>

lemma fix_encoding_unfold:
  "fix_encoding s =
     replace [0xC3, 0x91] [0xD1] (replace [0xC3, 0x9A] [0xDA] (replace [0xC3, 0x93] [0xD3]
    (replace [0xC3, 0x8D] [0xCD] (replace [0xC3, 0x89] [0xC9] (replace [0xC3, 0x81] [0xC1]
    (replace [0xC2, 0xBF] [0xBF] (replace [0xC2, 0xA1] [0xA1]
    (replace [0xC3] [0xED] (replace [0xC3, 0xB1] [0xF1] (replace [0xC3, 0xBA] [0xFA]
    (replace [0xC3, 0xB3] [0xF3] (replace [0xC3, 0xAD] [0xED] (replace [0xC3, 0xA9] [0xE9]
    (replace [0xC3, 0xA1] [0xE1] s))))))))))))))"
  by (simp add: fix_encoding_def encoding_fixes_def)

lemma capital_entries_idle:
  "fix_encoding s =
     replace [0xC2, 0xBF] [0xBF] (replace [0xC2, 0xA1] [0xA1]
    (replace [0xC3] [0xED] (replace [0xC3, 0xB1] [0xF1] (replace [0xC3, 0xBA] [0xFA]
    (replace [0xC3, 0xB3] [0xF3] (replace [0xC3, 0xAD] [0xED] (replace [0xC3, 0xA9] [0xE9]
    (replace [0xC3, 0xA1] [0xE1] s))))))))"
    (is "_ = replace _ _ (replace _ _ ?u)")
proof -
  define t where "t = replace [0xC2, 0xBF] [0xBF] (replace [0xC2, 0xA1] [0xA1] ?u)"
  have "0xC3 \<notin> set ?u"
    by (rule notin_replace_single) simp
  then have "0xC3 \<notin> set (replace [0xC2, 0xA1] [0xA1] ?u)"
    using set_replace [of "[0xC2, 0xA1]" "[0xA1]" ?u] by auto
  then have t: "0xC3 \<notin> set t"
    unfolding t_def
    using set_replace [of "[0xC2, 0xBF]" "[0xBF]" "replace [0xC2, 0xA1] [0xA1] ?u"] by auto
  have "fix_encoding s =
     replace [0xC3, 0x91] [0xD1] (replace [0xC3, 0x9A] [0xDA] (replace [0xC3, 0x93] [0xD3]
    (replace [0xC3, 0x8D] [0xCD] (replace [0xC3, 0x89] [0xC9] (replace [0xC3, 0x81] [0xC1] t)))))"
    unfolding fix_encoding_unfold t_def ..
  then show ?thesis
    unfolding t_def [symmetric] by (simp only: replace_absent [OF t])
qed

lemma fix_encoding_stages:
  obtains u where
    "fix_encoding s = replace [0xC2, 0xBF] [0xBF] (replace [0xC2, 0xA1] [0xA1] u)"
    "0xC3 \<notin> set u"
    "0xC3 \<notin> set s \<Longrightarrow> u = s"
    "sublist [0xC2, 0xC2, 0xA1] u \<longleftrightarrow> sublist [0xC2, 0xC2, 0xA1] s"
    "sublist [0xC2, 0xC2, 0xBF] u \<longleftrightarrow> sublist [0xC2, 0xC2, 0xBF] s"
proof -
  define u where "u =
    replace [0xC3] [0xED] (replace [0xC3, 0xB1] [0xF1] (replace [0xC3, 0xBA] [0xFA]
    (replace [0xC3, 0xB3] [0xF3] (replace [0xC3, 0xAD] [0xED] (replace [0xC3, 0xA9] [0xE9]
    (replace [0xC3, 0xA1] [0xE1] s))))))"
  have 1: "fix_encoding s = replace [0xC2, 0xBF] [0xBF] (replace [0xC2, 0xA1] [0xA1] u)"
    unfolding u_def by (rule capital_entries_idle)
  have 2: "0xC3 \<notin> set u"
    unfolding u_def by (rule notin_replace_single) simp
  have 3: "u = s" if "0xC3 \<notin> set s"
    unfolding u_def by (simp only: replace_absent [OF that])
  have 4: "sublist [0xC2, 0xC2, b] u \<longleftrightarrow> sublist [0xC2, 0xC2, b] s" if "b = 0xA1 \<or> b = 0xBF" for b
  proof -
    have pair: "sublist [0xC2, 0xC2, b] (replace [0xC3, q] [y] v) \<longleftrightarrow> sublist [0xC2, 0xC2, b] v"
      if "q \<noteq> 0xC2" "y \<noteq> 0xC2" "y \<noteq> b" for q y v
      using that \<open>b = 0xA1 \<or> b = 0xBF\<close>
      by (intro sublist_replace_pair) (auto simp: sublist_Cons_right)
    have single: "sublist [0xC2, 0xC2, b] (replace [0xC3] [0xED] v) \<longleftrightarrow> sublist [0xC2, 0xC2, b] v" for v
      using \<open>b = 0xA1 \<or> b = 0xBF\<close> by (intro sublist_replace_single) auto
    have nb: "0xE1 \<noteq> b" "0xE9 \<noteq> b" "0xED \<noteq> b" "0xF3 \<noteq> b" "0xFA \<noteq> b" "0xF1 \<noteq> b"
      using that by auto
    show ?thesis
      unfolding u_def by (simp add: single pair nb)
  qed
  show thesis
    using that [of u] 1 2 3 4 by blast
qed

lemma two_deletions_fixed:
  assumes "a \<noteq> b" "a \<noteq> c"
  shows "replace [a, c] [c] (replace [a, b] [b] t) = t \<longleftrightarrow>
         replace [a, b] [b] t = t \<and> replace [a, c] [c] t = t"
proof
  assume eq: "replace [a, c] [c] (replace [a, b] [b] t) = t"
  have "replace [a, b] [b] t = t"
  proof (rule ccontr)
    assume "replace [a, b] [b] t \<noteq> t"
    then have "length (replace [a, b] [b] t) < length t"
      using length_replace_pair [of a b b t] by simp
    moreover have "length (replace [a, c] [c] (replace [a, b] [b] t)) \<le> length (replace [a, b] [b] t)"
      using length_replace_pair [of a c c "replace [a, b] [b] t"] by simp
    ultimately show False using eq by simp
  qed
  with eq show "replace [a, b] [b] t = t \<and> replace [a, c] [c] t = t" by simp
next
  assume "replace [a, b] [b] t = t \<and> replace [a, c] [c] t = t"
  then show "replace [a, c] [c] (replace [a, b] [b] t) = t" by simp
qed

subsection \<open>Backslashes in escaped text\<close>

lemma guarded_Cons:
  "guarded D (a # r) \<longleftrightarrow> (if a = 0x5C then r \<noteq> [] \<and> D (hd r) else True) \<and> guarded D r"
  by (cases r) auto

lemma guarded_append: "guarded D x \<Longrightarrow> guarded D y \<Longrightarrow> guarded D (x @ y)"
proof (induction x rule: induct_list012)
  case 1
  then show ?case by simp
next
  case (2 c)
  then show ?case by (cases y) auto
next
  case (3 c d r)
  then show ?case by simp
qed

lemma guarded_quiet:
  assumes "guarded D x" "\<not> D p"
  shows "occurrences (0x5C # p # pat) (x @ ys) = occurrences (0x5C # p # pat) ys"
  using assms(1)
proof (induction x rule: induct_list012)
  case 1
  then show ?case by simp
next
  case (2 c)
  then show ?case by simp
next
  case (3 c d r)
  then have "\<not> prefix (0x5C # p # pat) (c # d # r @ ys)"
    using assms(2) by auto
  with 3 show ?case by simp
qed

lemma guarded_replace_single:
  assumes "c \<noteq> 0x5C" "\<not> D c" "\<And>d. D d \<Longrightarrow> D' d" "new \<noteq> []" "guarded D' new"
  shows "guarded D x \<Longrightarrow> guarded D' (replace [c] new x)"
proof (induction x)
  case Nil
  then show ?case by simp
next
  case (Cons a r)
  from Cons.prems have r: "guarded D r" and a: "a = 0x5C \<Longrightarrow> r \<noteq> [] \<and> D (hd r)"
    by (auto simp: guarded_Cons split: if_splits)
  note IH = Cons.IH [OF r]
  show ?case
  proof (cases "a = c")
    case True
    with IH assms(5) show ?thesis by (simp add: guarded_append)
  next
    case False
    have "replace [c] new r \<noteq> [] \<and> D' (hd (replace [c] new r))" if "a = 0x5C"
    proof -
      from a [OF that] obtain d r' where r': "r = d # r'" "D d" by (cases r) auto
      with assms(2) have "d \<noteq> c" by auto
      with r' assms(3) show ?thesis by simp
    qed
    with False IH show ?thesis by (simp add: guarded_Cons)
  qed
qed

lemma guarded_replace_backslash:
  assumes "guarded D (0x5C # new)"
  shows "guarded D (replace [0x5C] (0x5C # new) x)"
proof (induction x)
  case Nil
  then show ?case by simp
next
  case (Cons a r)
  show ?case
  proof (cases "a = 0x5C")
    case True
    have "guarded D ((0x5C # new) @ replace [0x5C] (0x5C # new) r)"
      using assms Cons by (rule guarded_append)
    with True show ?thesis by simp
  next
    case False
    with Cons show ?thesis by (simp add: guarded_Cons)
  qed
qed

lemma escape_guarded: "guarded (\<lambda>d. d = 0x74) (escape_latex_special_chars t)"
proof -
  have "guarded (\<lambda>d. d = 0x74) (replace [0x5C] (raw [['''', ''textbackslash{}'']]) v)" for v
    using guarded_replace_backslash [of "\<lambda>d. d = 0x74" "str ''textbackslash{}''" v]
    by (simp add: raw_def str_def)
  moreover have "guarded (\<lambda>d. d = 0x74) (replace (str ''<'') (raw [['''', ''textless{}'']]) v)"
    if "guarded (\<lambda>d. d = 0x74) v" for v
    using guarded_replace_single [of "0x3C" "\<lambda>d. d = 0x74" "\<lambda>d. d = 0x74" "raw [['''', ''textless{}'']]" v] that
    by (simp add: raw_def str_def)
  moreover have "guarded (\<lambda>d. d = 0x74) (replace (str ''>'') (raw [['''', ''textgreater{}'']]) v)"
    if "guarded (\<lambda>d. d = 0x74) v" for v
    using guarded_replace_single [of "0x3E" "\<lambda>d. d = 0x74" "\<lambda>d. d = 0x74" "raw [['''', ''textgreater{}'']]" v] that
    by (simp add: raw_def str_def)
  ultimately show ?thesis
    by (simp add: escape_latex_special_chars_def latex_special_chars_def)
qed

subsection \<open>Counting entries\<close>

lemma escape_quiet:
  "occurrences (0x5C # 0x50 # pat) (escape_latex_special_chars t @ ys) =
   occurrences (0x5C # 0x50 # pat) ys"
  by (rule guarded_quiet [OF escape_guarded]) simp

lemma line_breaks_quiet:
  "occurrences (0x5C # 0x50 # pat)
     (replace [0x0A] (raw [['''', '''', ''''], ['''']]) (escape_latex_special_chars t) @ ys) =
   occurrences (0x5C # 0x50 # pat) ys"
proof -
  have "guarded (\<lambda>d. d = 0x74 \<or> d = 0x5C \<or> d = 0x0A)
          (replace [0x0A] (raw [['''', '''', ''''], ['''']]) (escape_latex_special_chars t))"
    by (rule guarded_replace_single [OF _ _ _ _ _ escape_guarded]) (simp_all add: raw_def str_def)
  then show ?thesis by (rule guarded_quiet) simp
qed

lemma column_left_count:
  "occurrences (0x5C # 0x50 # str ''arallelLText{'') (column ''ParallelLText{%'' e @ ys) =
   Suc (occurrences (0x5C # 0x50 # str ''arallelLText{'') ys)"
  using escape_quiet [of "str ''arallelLText{''"] line_breaks_quiet [of "str ''arallelLText{''"]
  by (simp add: column_def Let_def raw_def str_def)

lemma column_right_count:
  "occurrences (0x5C # 0x50 # str ''arallelLText{'') (column ''ParallelRText{%'' e @ ys) =
   occurrences (0x5C # 0x50 # str ''arallelLText{'') ys"
  using escape_quiet [of "str ''arallelLText{''"] line_breaks_quiet [of "str ''arallelLText{''"]
  by (simp add: column_def Let_def raw_def str_def)

lemma dialogue_pair_count:
  "occurrences (0x5C # 0x50 # str ''arallelLText{'') (dialogue_pair n i l r @ ys) =
   Suc (occurrences (0x5C # 0x50 # str ''arallelLText{'') ys)"
proof -
  have "occurrences (0x5C # 0x50 # str ''arallelLText{'')
          ((if int i < n - 1 then raw [['''', ''ParallelPar''], ['''']] else []) @ ys) =
        occurrences (0x5C # 0x50 # str ''arallelLText{'') ys"
    by (simp add: raw_def str_def)
  then show ?thesis
    by (simp add: dialogue_pair_def column_left_count column_right_count)
qed

lemma dialogue_pairs_count:
  assumes "\<And>i ys. occurrences pat (f i @ ys) = Suc (occurrences pat ys)"
  shows "occurrences pat (concat (map f js) @ ys) = length js + occurrences pat ys"
  by (induction js) (simp_all add: assms)

lemma preamble_count:
  "occurrences (0x5C # 0x50 # str ''arallelLText{'')
     (preamble (escape_latex_special_chars title) (escape_latex_special_chars author) @ ys) =
   occurrences (0x5C # 0x50 # str ''arallelLText{'') ys"
  using escape_quiet [of "str ''arallelLText{''"]
  by (simp add: preamble_def raw_def str_def)

lemma ending_count: "occurrences (0x5C # 0x50 # str ''arallelLText{'') ending = 0"
  by (simp add: ending_def raw_def str_def)

lemma column_text:
  "column command entry =
     0x5C # str command @ [0x0A]
     @ 0x5C # str ''charname{''
     @ escape_latex_special_chars (fix_encoding (strip_chars (str ''[]'') (fst entry)))
     @ str ''}\<newline>''
     @ replace [0x0A] [0x5C, 0x5C, 0x0A] (escape_latex_special_chars (fix_encoding (snd entry)))
     @ str ''\<newline>}\<newline>''"
  by (simp add: column_def Let_def raw_def str_def)

lemma generate_latex_blocks:
  "generate_latex title author L R =
     Some (preamble (escape_latex_special_chars title) (escape_latex_special_chars author)
           @ concat (map (\<lambda>i. dialogue_pair (int (min (length L) (length R))) i (L ! i) (R ! i))
                       [0..<min (length L) (length R)])
           @ ending)"
  by (simp add: generate_latex_def Let_def latex_loop_eq)

section \<open>The claims\<close>

text \<open>
  Claim C1, as the parser behaves. Parsing \<open>[Charlie] Hello there[Vaggie] Hi\<close> yields
  exactly two pairs, in this order, with the dialogue text trimmed of surrounding
  whitespace; each label is the bracketed marker as it stands in the input, brackets
  included. The brackets are removed later, by \<open>strip('[]')\<close> in the document
  generator, which turns \<open>[Charlie]\<close> into \<open>Charlie\<close>.
\<close>

theorem parser_example_keeps_brackets:
  "parse_character_dialogue (str ''[Charlie] Hello there[Vaggie] Hi'') =
     [(str ''[Charlie]'', str ''Hello there''), (str ''[Vaggie]'', str ''Hi'')] \<and>
   strip_chars (str ''[]'') (str ''[Charlie]'') = str ''Charlie'' \<and>
   strip_chars (str ''[]'') (str ''[Vaggie]'') = str ''Vaggie''"
  by (simp add: parse_eval)

text \<open>
  Claim C1 as stated, with the brackets already stripped from the labels in the parser's
  output, does not hold for the parser.
\<close>

theorem parser_example_counterexample:
  "parse_character_dialogue (str ''[Charlie] Hello there[Vaggie] Hi'') \<noteq>
     [(str ''Charlie'', str ''Hello there''), (str ''Vaggie'', str ''Hi'')]"
  by (simp add: parse_eval)

text \<open>
  Claim C2 asks that a two-character garbled pattern wins over the one-character
  fallback that is its first character. The table lists the fallback \<open>U+00C3\<close> as its
  seventh entry, before the six patterns for the capital letters, so on the garbled
  form of a capital A with acute accent, \<open>U+00C3 U+0081\<close>, the fallback is applied and
  the two-character pattern is not: the result is \<open>U+00ED U+0081\<close>, not \<open>U+00C1\<close>.
  On every input the normalizer does what the first nine entries of its table do; the
  six entries for the capital letters never replace anything.
\<close>

theorem capital_pattern_shadowed:
  "fix_encoding [0xC3, 0x81] = [0xED, 0x81] \<and>
   fix_encoding [0xC3, 0x81] \<noteq> [0xC1] \<and>
   fix_encoding s =
     foldl (\<lambda>t (wrong, correct). replace wrong correct t) s (take 9 encoding_fixes)"
proof -
  have "fix_encoding [0xC3, 0x81] = [0xED, 0x81]"
    by (simp add: fix_encoding_def encoding_fixes_def)
  moreover have "fix_encoding s =
     foldl (\<lambda>t (wrong, correct). replace wrong correct t) s (take 9 encoding_fixes)"
    unfolding capital_entries_idle by (simp add: encoding_fixes_def)
  ultimately show ?thesis by simp
qed

text \<open>
  Claim C3, as the normalizer behaves. Normalizing twice gives the same as normalizing
  once exactly for the strings that contain neither \<open>U+00C2 U+00C2 U+00A1\<close> nor
  \<open>U+00C2 U+00C2 U+00BF\<close>: in these two sequences the second normalization finds a
  garbled pair that the first one has put together by deleting the \<open>U+00C2\<close> between
  its two characters.
\<close>

theorem normalizer_idempotent_iff:
  "fix_encoding (fix_encoding s) = fix_encoding s \<longleftrightarrow>
     \<not> sublist [0xC2, 0xC2, 0xA1] s \<and> \<not> sublist [0xC2, 0xC2, 0xBF] s"
proof -
  obtain u where u: "fix_encoding s = replace [0xC2, 0xBF] [0xBF] (replace [0xC2, 0xA1] [0xA1] u)"
    "0xC3 \<notin> set u"
    "sublist [0xC2, 0xC2, 0xA1] u \<longleftrightarrow> sublist [0xC2, 0xC2, 0xA1] s"
    "sublist [0xC2, 0xC2, 0xBF] u \<longleftrightarrow> sublist [0xC2, 0xC2, 0xBF] s"
    by (rule fix_encoding_stages [of s]) blast
  define t where "t = fix_encoding s"
  have "0xC3 \<notin> set (replace [0xC2, 0xA1] [0xA1] u)"
    using u(2) set_replace [of "[0xC2, 0xA1]" "[0xA1]" u] by auto
  then have t: "0xC3 \<notin> set t"
    unfolding t_def u(1)
    using set_replace [of "[0xC2, 0xBF]" "[0xBF]" "replace [0xC2, 0xA1] [0xA1] u"] by auto
  obtain u' where "fix_encoding t = replace [0xC2, 0xBF] [0xBF] (replace [0xC2, 0xA1] [0xA1] u')"
    "0xC3 \<notin> set t \<Longrightarrow> u' = t"
    by (rule fix_encoding_stages [of t]) blast
  with t have again: "fix_encoding t = replace [0xC2, 0xBF] [0xBF] (replace [0xC2, 0xA1] [0xA1] t)"
    by simp
  have "fix_encoding t = t \<longleftrightarrow> \<not> sublist [0xC2, 0xA1] t \<and> \<not> sublist [0xC2, 0xBF] t"
    unfolding again
    by (simp add: two_deletions_fixed replace_pair_fixed)
  also have "sublist [0xC2, 0xA1] t \<longleftrightarrow> sublist [0xC2, 0xC2, 0xA1] s"
  proof -
    have "sublist [0xC2, 0xA1] t \<longleftrightarrow> sublist [0xC2, 0xA1] (replace [0xC2, 0xA1] [0xA1] u)"
      unfolding t_def u(1)
      by (rule sublist_replace_pair) (auto simp: sublist_Cons_right)
    also have "\<dots> \<longleftrightarrow> sublist [0xC2, 0xC2, 0xA1] u"
      by (rule sublist_after_deletion) simp
    finally show ?thesis using u(3) by simp
  qed
  also have "sublist [0xC2, 0xBF] t \<longleftrightarrow> sublist [0xC2, 0xC2, 0xBF] s"
  proof -
    have "sublist [0xC2, 0xBF] t \<longleftrightarrow> sublist [0xC2, 0xC2, 0xBF] (replace [0xC2, 0xA1] [0xA1] u)"
      unfolding t_def u(1)
      by (rule sublist_after_deletion) simp
    also have "\<dots> \<longleftrightarrow> sublist [0xC2, 0xC2, 0xBF] u"
      by (rule sublist_replace_pair) (auto simp: sublist_Cons_right)
    finally show ?thesis using u(4) by simp
  qed
  finally show ?thesis unfolding t_def .
qed

text \<open>
  Claim C3 at a text with three garbled sequences, where the second normalization
  changes nothing, and at \<open>U+00C2 U+00C2 U+00BF\<close>, where it does.
\<close>

theorem normalizer_idempotent_iff_witness:
  "fix_encoding (fix_encoding [0x61, 0xC3, 0xA1, 0xC2, 0xBF, 0xC3, 0x81])
     = fix_encoding [0x61, 0xC3, 0xA1, 0xC2, 0xBF, 0xC3, 0x81] \<and>
   fix_encoding (fix_encoding [0xC2, 0xC2, 0xBF]) \<noteq> fix_encoding [0xC2, 0xC2, 0xBF]"
  using normalizer_idempotent_iff [of "[0x61, 0xC3, 0xA1, 0xC2, 0xBF, 0xC3, 0x81]"]
    normalizer_idempotent_iff [of "[0xC2, 0xC2, 0xBF]"]
  by (simp add: sublist_Cons_right)

text \<open>
  Claim C3 as stated, for every string, fails at \<open>U+00C2 U+00C2 U+00A1\<close>: the first
  normalization yields \<open>U+00C2 U+00A1\<close>, the second \<open>U+00A1\<close>.
\<close>

theorem normalizer_not_idempotent:
  "fix_encoding (fix_encoding [0xC2, 0xC2, 0xA1]) \<noteq> fix_encoding [0xC2, 0xC2, 0xA1]"
  by (simp add: fix_encoding_def encoding_fixes_def)

text \<open>
  Claim C4. From every reachable state of the editor, every sequence of cursor
  movements (up, down, left, right, home, end, page up, page down) runs without an
  exception, and after each of its steps, that is after its first \<open>n\<close> movements for
  every \<open>n\<close>, there is at least one line, the cursor line is an index into the lines,
  and the cursor column lies between 0 and the length of the current line.
\<close>

theorem cursor_movement_keeps_bounds:
  assumes "reachable s"
  shows "\<exists>s'. run_moves s (take n ms) = Some s' \<and>
           1 \<le> length (lines s') \<and>
           0 \<le> current_line s' \<and> current_line s' < int (length (lines s')) \<and>
           0 \<le> current_col s' \<and>
           current_col s' \<le> int (length (lines s' ! nat (current_line s')))"
  using run_moves_inv [OF reachable_inv [OF assms], of "take n ms"]
  by (auto simp: editor_inv_def py_len_def)

text \<open>
  Claim C4 at the buffer \<open>ab\<close>, \<open>c\<close> with the cursor behind the \<open>a\<close>.
\<close>

theorem cursor_movement_keeps_bounds_witness:
  "reachable \<lparr>lines = [str ''ab'', str ''c''], current_line = 0, current_col = 1,
              scroll_pos = 0, height = 3\<rparr> \<and>
   (\<exists>s'. run_moves \<lparr>lines = [str ''ab'', str ''c''], current_line = 0, current_col = 1,
              scroll_pos = 0, height = 3\<rparr> (take 3 [Right, Page_down, Left, Up]) = Some s' \<and>
           1 \<le> length (lines s') \<and>
           0 \<le> current_line s' \<and> current_line s' < int (length (lines s')) \<and>
           0 \<le> current_col s' \<and>
           current_col s' \<le> int (length (lines s' ! nat (current_line s'))))"
  using cursor_movement_keeps_bounds [OF reachable_ex2, of 3 "[Right, Page_down, Left, Up]"]
    reachable_ex2
  by simp

text \<open>
  Claim C5. In a reachable state with a viewport height of at least 1, after any
  cursor movement and the scroll adjustment that the next redraw makes, the cursor
  line lies between the first visible line and the first visible line plus the
  height minus 1, and the first visible line is not negative.
\<close>

theorem scroll_follows_cursor:
  assumes "reachable s" and "1 \<le> height s"
  shows "\<exists>s1. move m s = Some s1 \<and>
           scroll_pos (adjust_scroll s1) \<le> current_line (adjust_scroll s1) \<and>
           current_line (adjust_scroll s1)
             \<le> scroll_pos (adjust_scroll s1) + height (adjust_scroll s1) - 1 \<and>
           0 \<le> scroll_pos (adjust_scroll s1)"
proof -
  from move_inv [OF reachable_inv [OF assms(1)], of m]
  obtain s1 where s1: "move m s = Some s1" "editor_inv s1" by blast
  have h: "height s1 = height s"
    using s1(1)
    by (cases m)
       (auto simp: move_up_def move_down_def move_left_def move_right_def move_home_def
          move_end_def page_up_def page_down_def clamp_col_def Let_def
          split: if_splits bind_splits)
  from s1(2) h assms(2) have
    "scroll_pos (adjust_scroll s1) \<le> current_line (adjust_scroll s1) \<and>
     current_line (adjust_scroll s1)
       \<le> scroll_pos (adjust_scroll s1) + height (adjust_scroll s1) - 1 \<and>
     0 \<le> scroll_pos (adjust_scroll s1)"
    by (auto simp: adjust_scroll_def editor_inv_def)
  with s1(1) show ?thesis by blast
qed

text \<open>
  Claim C5 at a page down in a viewport of height 3.
\<close>

theorem scroll_follows_cursor_witness:
  "reachable \<lparr>lines = [str ''ab'', str ''c''], current_line = 0, current_col = 1,
              scroll_pos = 0, height = 3\<rparr> \<and>
   1 \<le> height \<lparr>lines = [str ''ab'', str ''c''], current_line = 0, current_col = 1,
              scroll_pos = 0, height = 3\<rparr> \<and>
   (\<exists>s1. move Page_down \<lparr>lines = [str ''ab'', str ''c''], current_line = 0, current_col = 1,
              scroll_pos = 0, height = 3\<rparr> = Some s1 \<and>
           scroll_pos (adjust_scroll s1) \<le> current_line (adjust_scroll s1) \<and>
           current_line (adjust_scroll s1)
             \<le> scroll_pos (adjust_scroll s1) + height (adjust_scroll s1) - 1 \<and>
           0 \<le> scroll_pos (adjust_scroll s1))"
  using scroll_follows_cursor [OF reachable_ex2, of Page_down] reachable_ex2
  by simp

text \<open>
  Claim C6. In a reachable state, an operation at the boundary of the buffer raises no
  exception and returns the state it was given: backspace and cursor left at column 0
  of line 0, cursor up on line 0, forward delete and cursor right at the end of the
  last line, cursor down on the last line, home at column 0 and end at the end of a
  line. Page up on line 0 and page down on the last line leave the lines and the
  cursor as they are (they may move the scroll position, which is not part of the
  buffer).
\<close>

theorem boundary_operations_are_noops:
  assumes "reachable s"
  shows "(current_line s = 0 \<and> current_col s = 0 \<longrightarrow> backspace s = Some s) \<and>
         (current_line s = py_len (lines s) - 1 \<and> current_col s = py_len (last (lines s))
            \<longrightarrow> delete s = Some s) \<and>
         (current_line s = 0 \<longrightarrow> move_up s = Some s) \<and>
         (current_line s = py_len (lines s) - 1 \<longrightarrow> move_down s = Some s) \<and>
         (current_line s = 0 \<and> current_col s = 0 \<longrightarrow> move_left s = Some s) \<and>
         (current_line s = py_len (lines s) - 1 \<and> current_col s = py_len (last (lines s))
            \<longrightarrow> move_right s = Some s) \<and>
         (current_col s = 0 \<longrightarrow> move_home s = Some s) \<and>
         (current_col s = py_len (lines s ! nat (current_line s)) \<longrightarrow> move_end s = Some s) \<and>
         (current_line s = 0 \<longrightarrow>
            (\<exists>s'. page_up s = Some s' \<and> lines s' = lines s \<and>
                  current_line s' = current_line s \<and> current_col s' = current_col s)) \<and>
         (current_line s = py_len (lines s) - 1 \<longrightarrow>
            (\<exists>s'. page_down s = Some s' \<and> lines s' = lines s \<and>
                  current_line s' = current_line s \<and> current_col s' = current_col s))"
proof -
  from reachable_inv [OF assms] obtain l c where s: "current_line s = int l"
    "l < length (lines s)" "current_col s = int c" "c \<le> length (lines s ! l)"
    "0 \<le> scroll_pos s" "0 \<le> height s"
    by (rule editor_invE)
  have last: "int l = py_len (lines s) - 1 \<Longrightarrow> last (lines s) = lines s ! l"
  proof -
    assume "int l = py_len (lines s) - 1"
    then have "l = length (lines s) - 1" by (simp add: py_len_def)
    with s(2) show ?thesis by (cases "lines s" rule: rev_cases) auto
  qed
  have "current_line s = 0 \<and> current_col s = 0 \<longrightarrow> backspace s = Some s"
    by (simp add: backspace_def)
  moreover have "current_line s = py_len (lines s) - 1 \<and> current_col s = py_len (last (lines s))
            \<longrightarrow> delete s = Some s"
  proof (intro impI, elim conjE)
    assume a: "current_line s = py_len (lines s) - 1" "current_col s = py_len (last (lines s))"
    from a(1) s(1) have e: "int l = py_len (lines s) - 1" by simp
    from last [OF e] a(2) s(3) have c: "c = length (lines s ! l)" by (simp add: py_len_def)
    have g: "py_get (lines s) (current_line s) = Some (lines s ! l)"
      using s by (simp add: py_get_valid)
    have "\<not> current_col s < py_len (lines s ! l)" "\<not> current_line s < py_len (lines s) - 1"
      using c s(3) a(1) by (simp_all add: py_len_def)
    then show "delete s = Some s" unfolding delete_def g by simp
  qed
  moreover have "current_line s = 0 \<longrightarrow> move_up s = Some s"
    by (simp add: move_up_def)
  moreover have "current_line s = py_len (lines s) - 1 \<longrightarrow> move_down s = Some s"
    by (simp add: move_down_def)
  moreover have "current_line s = 0 \<and> current_col s = 0 \<longrightarrow> move_left s = Some s"
    by (simp add: move_left_def)
  moreover have "current_line s = py_len (lines s) - 1 \<and> current_col s = py_len (last (lines s))
            \<longrightarrow> move_right s = Some s"
  proof (intro impI, elim conjE)
    assume a: "current_line s = py_len (lines s) - 1" "current_col s = py_len (last (lines s))"
    from a(1) s(1) have e: "int l = py_len (lines s) - 1" by simp
    from last [OF e] a(2) s(3) have c: "c = length (lines s ! l)" by (simp add: py_len_def)
    have g: "py_get (lines s) (current_line s) = Some (lines s ! l)"
      using s by (simp add: py_get_valid)
    have "\<not> current_col s < py_len (lines s ! l)" "\<not> current_line s < py_len (lines s) - 1"
      using c s(3) a(1) by (simp_all add: py_len_def)
    then show "move_right s = Some s" unfolding move_right_def g by simp
  qed
  moreover have "current_col s = 0 \<longrightarrow> move_home s = Some s"
    by (auto simp: move_home_def)
  moreover have "current_col s = py_len (lines s ! nat (current_line s)) \<longrightarrow> move_end s = Some s"
    using s by (auto simp: move_end_def py_get_valid py_len_def)
  moreover have "current_line s = 0 \<longrightarrow>
            (\<exists>s'. page_up s = Some s' \<and> lines s' = lines s \<and>
                  current_line s' = current_line s \<and> current_col s' = current_col s)"
    using s by (auto simp: page_up_def clamp_col_def py_get_valid py_len_def)
  moreover have "current_line s = py_len (lines s) - 1 \<longrightarrow>
            (\<exists>s'. page_down s = Some s' \<and> lines s' = lines s \<and>
                  current_line s' = current_line s \<and> current_col s' = current_col s)"
  proof (intro impI)
    assume a: "current_line s = py_len (lines s) - 1"
    have cl: "min (py_len (lines s) - 1) (current_line s + height s) = current_line s"
      using a s(6) by simp
    have g: "py_get (lines s) (current_line s) = Some (lines s ! l)"
      using s by (simp add: py_get_valid)
    show "\<exists>s'. page_down s = Some s' \<and> lines s' = lines s \<and>
                  current_line s' = current_line s \<and> current_col s' = current_col s"
      using s(3,4) by (simp add: page_down_def clamp_col_def cl [unfolded py_len_def] g py_len_def)
  qed
  ultimately show ?thesis by blast
qed

text \<open>
  Claim C6 at the two corners of the buffer \<open>ab\<close>, \<open>c\<close>.
\<close>

theorem boundary_operations_are_noops_witness:
  "backspace \<lparr>lines = [str ''ab'', str ''c''], current_line = 0, current_col = 0,
              scroll_pos = 0, height = 3\<rparr>
     = Some \<lparr>lines = [str ''ab'', str ''c''], current_line = 0, current_col = 0,
              scroll_pos = 0, height = 3\<rparr> \<and>
   move_up \<lparr>lines = [str ''ab'', str ''c''], current_line = 0, current_col = 0,
              scroll_pos = 0, height = 3\<rparr>
     = Some \<lparr>lines = [str ''ab'', str ''c''], current_line = 0, current_col = 0,
              scroll_pos = 0, height = 3\<rparr> \<and>
   move_left \<lparr>lines = [str ''ab'', str ''c''], current_line = 0, current_col = 0,
              scroll_pos = 0, height = 3\<rparr>
     = Some \<lparr>lines = [str ''ab'', str ''c''], current_line = 0, current_col = 0,
              scroll_pos = 0, height = 3\<rparr> \<and>
   move_home \<lparr>lines = [str ''ab'', str ''c''], current_line = 0, current_col = 0,
              scroll_pos = 0, height = 3\<rparr>
     = Some \<lparr>lines = [str ''ab'', str ''c''], current_line = 0, current_col = 0,
              scroll_pos = 0, height = 3\<rparr> \<and>
   delete \<lparr>lines = [str ''ab'', str ''c''], current_line = 1, current_col = 1,
              scroll_pos = 0, height = 3\<rparr>
     = Some \<lparr>lines = [str ''ab'', str ''c''], current_line = 1, current_col = 1,
              scroll_pos = 0, height = 3\<rparr> \<and>
   move_down \<lparr>lines = [str ''ab'', str ''c''], current_line = 1, current_col = 1,
              scroll_pos = 0, height = 3\<rparr>
     = Some \<lparr>lines = [str ''ab'', str ''c''], current_line = 1, current_col = 1,
              scroll_pos = 0, height = 3\<rparr> \<and>
   move_right \<lparr>lines = [str ''ab'', str ''c''], current_line = 1, current_col = 1,
              scroll_pos = 0, height = 3\<rparr>
     = Some \<lparr>lines = [str ''ab'', str ''c''], current_line = 1, current_col = 1,
              scroll_pos = 0, height = 3\<rparr> \<and>
   move_end \<lparr>lines = [str ''ab'', str ''c''], current_line = 1, current_col = 1,
              scroll_pos = 0, height = 3\<rparr>
     = Some \<lparr>lines = [str ''ab'', str ''c''], current_line = 1, current_col = 1,
              scroll_pos = 0, height = 3\<rparr> \<and>
   (\<exists>s'. page_up \<lparr>lines = [str ''ab'', str ''c''], current_line = 0, current_col = 0,
              scroll_pos = 0, height = 3\<rparr> = Some s' \<and>
      lines s' = [str ''ab'', str ''c''] \<and> current_line s' = 0 \<and> current_col s' = 0) \<and>
   (\<exists>s'. page_down \<lparr>lines = [str ''ab'', str ''c''], current_line = 1, current_col = 1,
              scroll_pos = 0, height = 3\<rparr> = Some s' \<and>
      lines s' = [str ''ab'', str ''c''] \<and> current_line s' = 1 \<and> current_col s' = 1)"
  using boundary_operations_are_noops [OF reachable_ex1]
    boundary_operations_are_noops [OF reachable_ex3]
  by (simp add: py_len_def str_def)

text \<open>
  Claim C7. In a reachable state, inserting a line break puts the cursor on column 0
  of the new line below, and a backspace right after it gives back the state before
  the line break: the same lines, cursor line and cursor column.
\<close>

theorem line_break_then_backspace_restores:
  assumes "reachable s"
  shows "\<exists>s1. insert_newline s = Some s1 \<and>
           current_line s1 = current_line s + 1 \<and> current_col s1 = 0 \<and>
           backspace s1 = Some s"
proof -
  from reachable_inv [OF assms] obtain l c where s: "current_line s = int l"
    "l < length (lines s)" "current_col s = int c" "c \<le> length (lines s ! l)"
    "0 \<le> scroll_pos s" "0 \<le> height s"
    by (rule editor_invE)
  define cur where "cur = lines s ! l"
  define pre where "pre = take l (lines s)"
  define post where "post = drop (Suc l) (lines s)"
  have xs: "lines s = pre @ cur # post" and lp: "length pre = l"
    using s(2) by (simp_all add: pre_def post_def cur_def id_take_nth_drop [symmetric])
  define s1 where "s1 = s\<lparr>lines := pre @ take c cur # drop c cur # post,
                           current_line := int l + 1, current_col := 0\<rparr>"
  have 1: "insert_newline s = Some s1"
    using s lp
    by (simp add: insert_newline_def s1_def xs py_get_valid py_set_valid slice_to_valid
        slice_from_valid py_insert_valid nat_add_distrib nth_append list_update_append)
  have 2: "backspace s1 = Some s"
    using s lp
    by (simp add: backspace_def s1_def xs py_get_valid py_set_valid py_pop_valid py_len_def
        nth_append list_update_append nat_add_distrib)
  from 1 2 s show ?thesis by (simp add: s1_def)
qed

text \<open>
  Claim C7 with the line \<open>ab\<close> broken between its two letters.
\<close>

theorem line_break_then_backspace_restores_witness:
  "reachable \<lparr>lines = [str ''ab'', str ''c''], current_line = 0, current_col = 1,
              scroll_pos = 0, height = 3\<rparr> \<and>
   (\<exists>s1. insert_newline \<lparr>lines = [str ''ab'', str ''c''], current_line = 0, current_col = 1,
              scroll_pos = 0, height = 3\<rparr> = Some s1 \<and>
         current_line s1 = 1 \<and> current_col s1 = 0 \<and>
         backspace s1 = Some \<lparr>lines = [str ''ab'', str ''c''], current_line = 0, current_col = 1,
              scroll_pos = 0, height = 3\<rparr>)"
  using line_break_then_backspace_restores [OF reachable_ex2] reachable_ex2
  by simp

text \<open>
  Claim C8, as the editor behaves. The editor is started in a reachable state and
  reads any keys other than Ctrl+G (all of them code points that \<open>chr\<close> accepts, with
  their curses calls going through). If \<open>KeyboardInterrupt\<close> is then raised inside the
  \<open>try\<close> block of the loop, while \<open>edit\<close> waits for the next key or handles one,
  \<open>edit\<close> returns, and what it returns is the empty string, whatever the buffer
  holds and whatever input would have followed. If it is raised while code outside
  the \<open>try\<close> block runs (the redraw at the top of a pass, or the joining of the lines
  behind Ctrl+G), it is not caught: \<open>edit\<close> ends with \<open>KeyboardInterrupt\<close> and returns
  nothing. In neither case is any content of the buffer returned.
\<close>

theorem interrupt_inside_try_returns_empty:
  assumes "reachable s"
    and "\<forall>e \<in> set evs. \<exists>ch. e = Key ch \<and> ch \<noteq> 7 \<and> ch \<le> 0x10FFFF"
  shows "edit s (evs @ Interrupt # rest) = Returned [] \<and>
         edit s (evs @ Interrupt_outside # rest) = Raised KeyboardInterrupt \<and>
         edit s (evs @ Key 7 # Interrupt_outside # rest) = Raised KeyboardInterrupt"
  unfolding edit_def using edit_loop_interrupt [OF reachable_inv [OF assms(1)] assms(2)] .

text \<open>
  Claim C8 with an \<open>x\<close> and a line break typed before the interruption.
\<close>

theorem interrupt_inside_try_returns_empty_witness:
  "reachable \<lparr>lines = [str ''ab'', str ''c''], current_line = 0, current_col = 1,
              scroll_pos = 0, height = 3\<rparr> \<and>
   edit \<lparr>lines = [str ''ab'', str ''c''], current_line = 0, current_col = 1,
              scroll_pos = 0, height = 3\<rparr> ([Key 120, Key 10] @ Interrupt # [Key 7])
     = Returned [] \<and>
   edit \<lparr>lines = [str ''ab'', str ''c''], current_line = 0, current_col = 1,
              scroll_pos = 0, height = 3\<rparr> ([Key 120, Key 10] @ Interrupt_outside # [Key 7])
     = Raised KeyboardInterrupt \<and>
   edit \<lparr>lines = [str ''ab'', str ''c''], current_line = 0, current_col = 1,
              scroll_pos = 0, height = 3\<rparr>
        ([Key 120, Key 10] @ Key 7 # Interrupt_outside # [Key 7])
     = Raised KeyboardInterrupt"
proof -
  have h: "\<forall>e \<in> set [Key 120, Key 10]. \<exists>ch. e = Key ch \<and> ch \<noteq> 7 \<and> ch \<le> 0x10FFFF"
    by simp
  from interrupt_inside_try_returns_empty [OF reachable_ex2 h, of "[Key 7]"] reachable_ex2
  show ?thesis by blast
qed

text \<open>
  Claim C8 as stated, for an interruption at any point of the session, fails when the
  signal arrives during the redraw that follows a typed \<open>x\<close>: \<open>edit\<close> does not return
  the empty string, it raises.
\<close>

theorem interrupt_outside_try_counterexample:
  "edit (init 3) [Key 120, Interrupt_outside] \<noteq> Returned []"
  by (simp add: edit_def init_def update_display_def adjust_scroll_def py_get_def py_index_def
      handle_key_def KEY_UP_def KEY_DOWN_def KEY_LEFT_def KEY_RIGHT_def KEY_HOME_def KEY_END_def
      KEY_PPAGE_def KEY_NPAGE_def KEY_BACKSPACE_def KEY_DC_def KEY_RESIZE_def py_chr_def
      insert_char_def py_set_def slice_to_def slice_from_def slice_bound_def)

text \<open>
  Claim C9. The generated document is the preamble, then exactly one paired entry for
  every index \<open>i\<close> below the length of the shorter sequence, in this order, and then
  the ending; no exception is raised. The entry for \<open>i\<close> is written out here character
  by character: the left column with the name and the text of the left entry at
  position \<open>i\<close> (name without brackets, both normalized and escaped, a line break
  command before every line feed of the text), then the right column with those of the
  right entry at position \<open>i\<close>, then the paragraph separator unless the entry is the
  last. The entries of the longer sequence beyond that length have no influence on the
  document. Counted in the document itself: the command that opens the left column
  occurs exactly as often as the shorter sequence is long, whatever the titles, names
  and texts contain. For 3 entries against 5 the document holds the 3 pairs of the
  positions 0, 1 and 2 and nothing of the two further entries.
\<close>

theorem generator_pairs_up_to_shorter:
  "generate_latex title author L R =
     Some (preamble (escape_latex_special_chars title) (escape_latex_special_chars author)
           @ concat (map (\<lambda>i.
               0x5C # str ''ParallelLText{%\<newline>''
               @ 0x5C # str ''charname{''
               @ escape_latex_special_chars (fix_encoding (strip_chars (str ''[]'') (fst (L ! i))))
               @ str ''}\<newline>''
               @ replace [0x0A] [0x5C, 0x5C, 0x0A]
                   (escape_latex_special_chars (fix_encoding (snd (L ! i))))
               @ str ''\<newline>}\<newline>''
               @ 0x5C # str ''ParallelRText{%\<newline>''
               @ 0x5C # str ''charname{''
               @ escape_latex_special_chars (fix_encoding (strip_chars (str ''[]'') (fst (R ! i))))
               @ str ''}\<newline>''
               @ replace [0x0A] [0x5C, 0x5C, 0x0A]
                   (escape_latex_special_chars (fix_encoding (snd (R ! i))))
               @ str ''\<newline>}\<newline>''
               @ (if int i < int (min (length L) (length R)) - 1
                  then 0x5C # str ''ParallelPar\<newline>'' else []))
             [0..<min (length L) (length R)])
           @ ending) \<and>
   generate_latex title author L R =
     generate_latex title author (take (min (length L) (length R)) L)
                                 (take (min (length L) (length R)) R) \<and>
   (\<exists>latex. generate_latex title author L R = Some latex \<and>
      occurrences (0x5C # str ''ParallelLText{'') latex = min (length L) (length R)) \<and>
   generate_latex (str ''T'') (str ''A'')
     [(str ''[Ana]'', str ''Hola''), (str ''[Luz]'', str ''Uno\<newline>Dos''),
      (str ''[Ana]'', str ''Adios'')]
     [(str ''[Ana]'', str ''Hello''), (str ''[Luz]'', str ''One\<newline>Two''),
      (str ''[Ana]'', str ''Bye''), (str ''[Luz]'', str ''Extra''), (str ''[Ana]'', str ''More'')] =
     Some (preamble (str ''T'') (str ''A'')
           @ 0x5C # str ''ParallelLText{%\<newline>''
           @ 0x5C # str ''charname{Ana}\<newline>Hola\<newline>}\<newline>''
           @ 0x5C # str ''ParallelRText{%\<newline>''
           @ 0x5C # str ''charname{Ana}\<newline>Hello\<newline>}\<newline>''
           @ 0x5C # str ''ParallelPar\<newline>''
           @ 0x5C # str ''ParallelLText{%\<newline>''
           @ 0x5C # str ''charname{Luz}\<newline>Uno'' @ 0x5C # 0x5C # str ''\<newline>Dos\<newline>}\<newline>''
           @ 0x5C # str ''ParallelRText{%\<newline>''
           @ 0x5C # str ''charname{Luz}\<newline>One'' @ 0x5C # 0x5C # str ''\<newline>Two\<newline>}\<newline>''
           @ 0x5C # str ''ParallelPar\<newline>''
           @ 0x5C # str ''ParallelLText{%\<newline>''
           @ 0x5C # str ''charname{Ana}\<newline>Adios\<newline>}\<newline>''
           @ 0x5C # str ''ParallelRText{%\<newline>''
           @ 0x5C # str ''charname{Ana}\<newline>Bye\<newline>}\<newline>''
           @ ending)"
proof -
  note gen = generate_latex_blocks
  have blocks: "generate_latex title author L R =
     Some (preamble (escape_latex_special_chars title) (escape_latex_special_chars author)
           @ concat (map (\<lambda>i.
               0x5C # str ''ParallelLText{%\<newline>''
               @ 0x5C # str ''charname{''
               @ escape_latex_special_chars (fix_encoding (strip_chars (str ''[]'') (fst (L ! i))))
               @ str ''}\<newline>''
               @ replace [0x0A] [0x5C, 0x5C, 0x0A]
                   (escape_latex_special_chars (fix_encoding (snd (L ! i))))
               @ str ''\<newline>}\<newline>''
               @ 0x5C # str ''ParallelRText{%\<newline>''
               @ 0x5C # str ''charname{''
               @ escape_latex_special_chars (fix_encoding (strip_chars (str ''[]'') (fst (R ! i))))
               @ str ''}\<newline>''
               @ replace [0x0A] [0x5C, 0x5C, 0x0A]
                   (escape_latex_special_chars (fix_encoding (snd (R ! i))))
               @ str ''\<newline>}\<newline>''
               @ (if int i < int (min (length L) (length R)) - 1
                  then 0x5C # str ''ParallelPar\<newline>'' else []))
             [0..<min (length L) (length R)])
           @ ending)"
    unfolding gen [of title author L R]
    by (simp add: dialogue_pair_def column_text raw_def str_def cong: if_cong)
  define n where "n = min (length L) (length R)"
  have m: "map (\<lambda>i. dialogue_pair (int n) i (take n L ! i) (take n R ! i)) [0..<n] =
        map (\<lambda>i. dialogue_pair (int n) i (L ! i) (R ! i)) [0..<n]"
    by (rule map_cong) auto
  have l: "min (length (take n L)) (length (take n R)) = n"
    by (simp add: n_def)
  have "generate_latex title author (take n L) (take n R) = generate_latex title author L R"
    unfolding gen [of title author L R] gen [of title author "take n L" "take n R"] l m
      n_def [symmetric] ..
  then have trunc: "generate_latex title author L R =
     generate_latex title author (take (min (length L) (length R)) L)
                                 (take (min (length L) (length R)) R)"
    by (simp add: n_def)
  have "occurrences (0x5C # 0x50 # str ''arallelLText{'')
          (preamble (escape_latex_special_chars title) (escape_latex_special_chars author)
           @ concat (map (\<lambda>i. dialogue_pair (int (min (length L) (length R))) i (L ! i) (R ! i))
                       [0..<min (length L) (length R)])
           @ ending) = min (length L) (length R)"
    by (simp only: preamble_count dialogue_pairs_count [where ys = ending, OF dialogue_pair_count]
          ending_count length_upt diff_zero add_0_right)
  moreover have "0x5C # str ''ParallelLText{'' = 0x5C # 0x50 # str ''arallelLText{''"
    by (simp add: str_def)
  ultimately have count: "\<exists>latex. generate_latex title author L R = Some latex \<and>
      occurrences (0x5C # str ''ParallelLText{'') latex = min (length L) (length R)"
    using gen [of title author L R] by simp
  have example: "generate_latex (str ''T'') (str ''A'')
     [(str ''[Ana]'', str ''Hola''), (str ''[Luz]'', str ''Uno\<newline>Dos''),
      (str ''[Ana]'', str ''Adios'')]
     [(str ''[Ana]'', str ''Hello''), (str ''[Luz]'', str ''One\<newline>Two''),
      (str ''[Ana]'', str ''Bye''), (str ''[Luz]'', str ''Extra''), (str ''[Ana]'', str ''More'')] =
     Some (preamble (str ''T'') (str ''A'')
           @ 0x5C # str ''ParallelLText{%\<newline>''
           @ 0x5C # str ''charname{Ana}\<newline>Hola\<newline>}\<newline>''
           @ 0x5C # str ''ParallelRText{%\<newline>''
           @ 0x5C # str ''charname{Ana}\<newline>Hello\<newline>}\<newline>''
           @ 0x5C # str ''ParallelPar\<newline>''
           @ 0x5C # str ''ParallelLText{%\<newline>''
           @ 0x5C # str ''charname{Luz}\<newline>Uno'' @ 0x5C # 0x5C # str ''\<newline>Dos\<newline>}\<newline>''
           @ 0x5C # str ''ParallelRText{%\<newline>''
           @ 0x5C # str ''charname{Luz}\<newline>One'' @ 0x5C # 0x5C # str ''\<newline>Two\<newline>}\<newline>''
           @ 0x5C # str ''ParallelPar\<newline>''
           @ 0x5C # str ''ParallelLText{%\<newline>''
           @ 0x5C # str ''charname{Ana}\<newline>Adios\<newline>}\<newline>''
           @ 0x5C # str ''ParallelRText{%\<newline>''
           @ 0x5C # str ''charname{Ana}\<newline>Bye\<newline>}\<newline>''
           @ ending)"
    by (simp add: generate_latex_def Let_def py_get_def py_index_def upt_rec dialogue_pair_def
        column_def raw_def str_def strip_chars_def strip_by_def fix_encoding_def
        encoding_fixes_def escape_latex_special_chars_def latex_special_chars_def)
  from blocks trunc count example show ?thesis by blast
qed

text \<open>
  Claim C10 asks that whatever stands in front of the first marker \<open>[Label]\<close> is
  dropped. The parser finds the markers with \<open>\[[^\]]+\]\<close> and then tells names from
  text with the wider \<open>\[.+\]\<close>. In \<open>[]]y [A] hi\<close> the first marker that the split finds
  is \<open>[A]\<close>; the text in front of it begins with a bracket and holds a closing one, the
  second pattern accepts it, and it comes back as a label with an empty dialogue.
  Ordinary leading text, as in \<open>note [A] hi\<close>, is dropped, and blank and empty inputs
  yield no pair.
\<close>

theorem bracketed_leading_text_becomes_label:
  "parse_character_dialogue (str ''[]]y [A] hi'') =
     [(str ''[]]y '', []), (str ''[A]'', str ''hi'')] \<and>
   re_split (str ''[]]y [A] hi'') = [str ''[]]y '', str ''[A]'', str '' hi''] \<and>
   match_bracketed (str ''[]]y [A] hi'') = None \<and>
   is_character_name (str ''[]]y '') \<and>
   parse_character_dialogue (str ''[A] hi'') = [(str ''[A]'', str ''hi'')] \<and>
   parse_character_dialogue (str ''note [A] hi'') = [(str ''[A]'', str ''hi'')] \<and>
   parse_character_dialogue (str ''   '') = [] \<and>
   parse_character_dialogue [] = []"
  by (simp add: parse_character_dialogue_def split_parts_def str_def strip_def strip_by_def
      isspace_def fix_encoding_def encoding_fixes_def is_character_name_def)

end
